theory Spec2Isabelle
  imports Complex_Main
begin

section \<open>Python values and failures\<close>

text \<open>
  Python floats are modelled as the real numbers (rounding is not modelled), and
  \<^verbatim>\<open>float("inf")\<close> as an extra element. Every exception the modelled code can
  raise is a value of \<open>py_error\<close>; a function that can raise returns \<open>py_error + 'a\<close>.
\<close>

datatype py_error = ZeroDivisionError | ValueError | KeyError | IndexError | AttributeError

definition bind_err :: "py_error + 'a \<Rightarrow> ('a \<Rightarrow> py_error + 'b) \<Rightarrow> py_error + 'b" where
  "bind_err m f = (case m of Inl e \<Rightarrow> Inl e | Inr x \<Rightarrow> f x)"

definition py_div :: "real \<Rightarrow> real \<Rightarrow> py_error + real" where
  "py_div a b = (if b = 0 then Inl ZeroDivisionError else Inr (a / b))"

definition py_log :: "real \<Rightarrow> py_error + real" where
  "py_log x = (if x \<le> 0 then Inl ValueError else Inr (ln x))"

definition py_sqrt :: "real \<Rightarrow> py_error + real" where
  "py_sqrt x = (if x < 0 then Inl ValueError else Inr (sqrt x))"

text \<open>A float that may be \<^verbatim>\<open>float("inf")\<close>: the two cut points of the detector.\<close>

datatype py_float = Finite real | PosInf

fun float_less :: "real \<Rightarrow> py_float \<Rightarrow> bool" where
  "float_less x PosInf = True"
| "float_less x (Finite y) = (x < y)"

fun float_greater :: "real \<Rightarrow> py_float \<Rightarrow> bool" where
  "float_greater x PosInf = False"
| "float_greater x (Finite y) = (x > y)"

section \<open>The change detector \<^verbatim>\<open>HDDM_W\<close> (creme/drift/hddm_w.py)\<close>

record SampleInfo =
  EWMA_estimator :: real
  independent_bounded_condition_sum :: real

definition SampleInfo_init :: SampleInfo where
  "SampleInfo_init = \<lparr>EWMA_estimator = -1, independent_bounded_condition_sum = 0\<rparr>"

text \<open>
  The attributes of the base class \<^verbatim>\<open>creme.base.DriftDetector\<close> that \<^verbatim>\<open>HDDM_W\<close>
  reads or writes. The base class is not among the sources: its constructor and its
  \<^verbatim>\<open>reset\<close> are parameters of the model (\<open>super_init\<close>, \<open>super_reset\<close>), restricted to
  these attributes.
\<close>

record DriftDetector =
  in_concept_change :: bool
  in_warning_zone :: bool
  estimation :: "real option"

record HDDM_W =
  base :: DriftDetector
  total :: SampleInfo
  sample1_decr_monitor :: SampleInfo
  sample1_incr_monitor :: SampleInfo
  sample2_decr_monitor :: SampleInfo
  sample2_incr_monitor :: SampleInfo
  incr_cutpoint :: py_float
  decr_cutpoint :: py_float
  width :: int
  delay :: int
  drift_confidence :: real
  warning_confidence :: real
  lambda_option :: real
  two_sided_test :: bool

definition HDDM_W_init ::
  "(DriftDetector \<Rightarrow> DriftDetector) \<Rightarrow> DriftDetector \<Rightarrow> real \<Rightarrow> real \<Rightarrow> real \<Rightarrow> bool \<Rightarrow> HDDM_W" where
  "HDDM_W_init super_reset super_init dc wc lam two =
     \<lparr>base = (super_reset super_init)\<lparr>estimation := None\<rparr>,
      total = SampleInfo_init,
      sample1_decr_monitor = SampleInfo_init,
      sample1_incr_monitor = SampleInfo_init,
      sample2_decr_monitor = SampleInfo_init,
      sample2_incr_monitor = SampleInfo_init,
      incr_cutpoint = PosInf,
      decr_cutpoint = PosInf,
      width = 0,
      delay = 0,
      drift_confidence = dc,
      warning_confidence = wc,
      lambda_option = lam,
      two_sided_test = two\<rparr>"

definition reset :: "(DriftDetector \<Rightarrow> DriftDetector) \<Rightarrow> HDDM_W \<Rightarrow> HDDM_W" where
  "reset super_reset d =
     d\<lparr>base := super_reset (base d),
       total := SampleInfo_init,
       sample1_decr_monitor := SampleInfo_init,
       sample1_incr_monitor := SampleInfo_init,
       sample2_decr_monitor := SampleInfo_init,
       sample2_incr_monitor := SampleInfo_init,
       incr_cutpoint := PosInf,
       decr_cutpoint := PosInf,
       width := 0,
       delay := 0\<rparr>"

text \<open>The expression \<^verbatim>\<open>sqrt(s * log(1 / confidence) / 2)\<close>, with its three ways to raise.\<close>

definition sqrt_log_bound :: "real \<Rightarrow> real \<Rightarrow> py_error + real" where
  "sqrt_log_bound s confidence =
     bind_err (py_div 1 confidence) (\<lambda>q.
     bind_err (py_log q) (\<lambda>l.
     py_sqrt (s * l / 2)))"

definition detect_mean_increment :: "SampleInfo \<Rightarrow> SampleInfo \<Rightarrow> real \<Rightarrow> py_error + bool" where
  "detect_mean_increment sample1 sample2 confidence =
     (if EWMA_estimator sample1 < 0 \<or> EWMA_estimator sample2 < 0 then Inr False
      else
        let ibc_sum = independent_bounded_condition_sum sample1
                      + independent_bounded_condition_sum sample2
        in bind_err (sqrt_log_bound ibc_sum confidence) (\<lambda>bound.
           Inr (EWMA_estimator sample2 - EWMA_estimator sample1 > bound)))"

definition monitor_mean_incr :: "real \<Rightarrow> HDDM_W \<Rightarrow> py_error + bool" where
  "monitor_mean_incr confidence d =
     detect_mean_increment (sample1_incr_monitor d) (sample2_incr_monitor d) confidence"

definition monitor_mean_decr :: "real \<Rightarrow> HDDM_W \<Rightarrow> py_error + bool" where
  "monitor_mean_decr confidence d =
     detect_mean_increment (sample2_decr_monitor d) (sample1_decr_monitor d) confidence"

text \<open>
  The recurrence that \<^verbatim>\<open>update\<close>, \<^verbatim>\<open>_update_incr_statistics\<close> and
  \<^verbatim>\<open>_update_decr_statistics\<close> each write out for one \<^verbatim>\<open>SampleInfo\<close>: the first value
  initialises the pair, later values are folded in with weight \<open>lam\<close>.
\<close>

definition fold_value :: "real \<Rightarrow> real \<Rightarrow> SampleInfo \<Rightarrow> SampleInfo" where
  "fold_value lam v s =
     (let aux_decay = 1 - lam in
      if EWMA_estimator s < 0
      then \<lparr>EWMA_estimator = v, independent_bounded_condition_sum = 1\<rparr>
      else \<lparr>EWMA_estimator = lam * v + aux_decay * EWMA_estimator s,
            independent_bounded_condition_sum =
              lam * lam + aux_decay * aux_decay * independent_bounded_condition_sum s\<rparr>)"

definition update_incr_statistics :: "real \<Rightarrow> real \<Rightarrow> HDDM_W \<Rightarrow> py_error + HDDM_W" where
  "update_incr_statistics v confidence d =
     bind_err (sqrt_log_bound (independent_bounded_condition_sum (total d)) confidence) (\<lambda>bound.
       if float_less (EWMA_estimator (total d) + bound) (incr_cutpoint d)
       then Inr (d\<lparr>incr_cutpoint := Finite (EWMA_estimator (total d) + bound),
                   sample1_incr_monitor := total d,
                   sample2_incr_monitor := SampleInfo_init,
                   delay := 0\<rparr>)
       else Inr (d\<lparr>delay := delay d + 1,
                   sample2_incr_monitor := fold_value (lambda_option d) v (sample2_incr_monitor d)\<rparr>))"

definition update_decr_statistics :: "real \<Rightarrow> real \<Rightarrow> HDDM_W \<Rightarrow> py_error + HDDM_W" where
  "update_decr_statistics v confidence d =
     bind_err (sqrt_log_bound (independent_bounded_condition_sum (total d)) confidence) (\<lambda>epsilon.
       if float_greater (EWMA_estimator (total d) - epsilon) (decr_cutpoint d)
       then Inr (d\<lparr>decr_cutpoint := Finite (EWMA_estimator (total d) - epsilon),
                   sample1_decr_monitor := total d,
                   sample2_decr_monitor := SampleInfo_init\<rparr>)
       else Inr (d\<lparr>sample2_decr_monitor := fold_value (lambda_option d) v (sample2_decr_monitor d)\<rparr>))"

definition set_status :: "bool \<Rightarrow> bool \<Rightarrow> HDDM_W \<Rightarrow> HDDM_W" where
  "set_status c w d = d\<lparr>base := (base d)\<lparr>in_concept_change := c, in_warning_zone := w\<rparr>\<rparr>"

text \<open>
  The increase-side branch of \<^verbatim>\<open>update\<close> (the \<^verbatim>\<open>if/elif/else\<close> after
  \<^verbatim>\<open>_update_incr_statistics\<close>).
\<close>

definition incr_branch :: "(DriftDetector \<Rightarrow> DriftDetector) \<Rightarrow> HDDM_W \<Rightarrow> py_error + HDDM_W" where
  "incr_branch super_reset d =
     bind_err (monitor_mean_incr (drift_confidence d) d) (\<lambda>drift.
       if drift then Inr (set_status True False (reset super_reset d))
       else bind_err (monitor_mean_incr (warning_confidence d) d) (\<lambda>warning.
         if warning then Inr (set_status False True d)
         else Inr (set_status False False d)))"

text \<open>
  The decrease-side branch: \<^verbatim>\<open>if self.two_sided_test and self._monitor_mean_decr(...)\<close>;
  Python's \<^verbatim>\<open>and\<close> does not evaluate the monitor when the test is one-sided.
\<close>

definition decr_branch :: "(DriftDetector \<Rightarrow> DriftDetector) \<Rightarrow> HDDM_W \<Rightarrow> py_error + HDDM_W" where
  "decr_branch super_reset d =
     bind_err (if two_sided_test d then monitor_mean_decr (drift_confidence d) d else Inr False)
       (\<lambda>fires. if fires then Inr (reset super_reset d) else Inr d)"

definition update ::
  "(DriftDetector \<Rightarrow> DriftDetector) \<Rightarrow> real \<Rightarrow> HDDM_W \<Rightarrow> py_error + (HDDM_W \<times> bool \<times> bool)" where
  "update super_reset v d =
     (let d1 = d\<lparr>width := width d + 1\<rparr>;
          d2 = d1\<lparr>total := fold_value (lambda_option d1) v (total d1)\<rparr>
      in bind_err (update_incr_statistics v (drift_confidence d2) d2) (\<lambda>d3.
         bind_err (incr_branch super_reset d3) (\<lambda>d4.
         bind_err (update_decr_statistics v (drift_confidence d4) d4) (\<lambda>d5.
         bind_err (decr_branch super_reset d5) (\<lambda>d6.
           let d7 = d6\<lparr>base := (base d6)\<lparr>estimation := Some (EWMA_estimator (total d6))\<rparr>\<rparr>
           in Inr (d7, in_concept_change (base d7), in_warning_zone (base d7)))))))"

text \<open>
  Feeding a list of values as the docstring's loop does, collecting the pair each
  \<^verbatim>\<open>update\<close> returns and stopping at the first exception.
\<close>

fun feed ::
  "(DriftDetector \<Rightarrow> DriftDetector) \<Rightarrow> real list \<Rightarrow> HDDM_W
     \<Rightarrow> py_error + (HDDM_W \<times> (bool \<times> bool) list)" where
  "feed super_reset [] d = Inr (d, [])"
| "feed super_reset (v # vs) d =
     bind_err (update super_reset v d) (\<lambda>r.
     bind_err (feed super_reset vs (fst r)) (\<lambda>r'.
       Inr (fst r', snd r # snd r')))"

text \<open>Any sequence of calls a client can make on a detector.\<close>

datatype detector_call = CallUpdate real | CallReset

fun run_calls ::
  "(DriftDetector \<Rightarrow> DriftDetector) \<Rightarrow> detector_call list \<Rightarrow> HDDM_W \<Rightarrow> py_error + HDDM_W" where
  "run_calls super_reset [] d = Inr d"
| "run_calls super_reset (CallUpdate v # cs) d =
     bind_err (update super_reset v d) (\<lambda>r. run_calls super_reset cs (fst r))"
| "run_calls super_reset (CallReset # cs) d = run_calls super_reset cs (reset super_reset d)"

section \<open>The Hoeffding tree regressor (creme/tree/hoeffding_tree_regressor.py)\<close>

text \<open>
  Nodes are Python objects that the tree reaches through references, and a parent is
  updated in place through \<^verbatim>\<open>parent.set_child\<close>: the model keeps the nodes in a store,
  a function from addresses to nodes with an allocation frontier \<open>next_addr\<close>. A
  reference is an address below the frontier; \<^verbatim>\<open>None\<close> is \<open>None\<close>.
\<close>

type_synonym addr = nat

datatype leaf_prediction = TARGET_MEAN | MODEL | ADAPTIVE

text \<open>
  \<^verbatim>\<open>AttributeSplitSuggestion(split_test, resulting_class_distributions, merit)\<close>, as
  the attribute observers build it; a suggestion without a test is the null split.
\<close>

record ('t, 's) AttributeSplitSuggestion =
  split_test :: "'t option"
  resulting_class_distributions :: "'s list"
  merit :: real

text \<open>
  Modelled from the spec: the class \<^verbatim>\<open>AttributeSplitSuggestion\<close> is not among the
  sources; a candidate yields the per-branch statistics, so \<^verbatim>\<open>num_splits()\<close> is their
  number and \<^verbatim>\<open>resulting_stats_from_split(i)\<close> the \<open>i\<close>-th of them.
\<close>

definition num_splits :: "('t, 's) AttributeSplitSuggestion \<Rightarrow> nat" where
  "num_splits sg = length (resulting_class_distributions sg)"

definition resulting_stats_from_split :: "('t, 's) AttributeSplitSuggestion \<Rightarrow> nat \<Rightarrow> 's" where
  "resulting_stats_from_split sg i = resulting_class_distributions sg ! i"

text \<open>
  A learning node (active or not, of the kind the tree's \<^verbatim>\<open>leaf_prediction\<close> selects,
  with its statistics, its depth and the attributes disabled at it) or a split node (its
  test, the statistics and depth it was built with, its children by branch index).
\<close>

datatype ('t, 's) node =
  LearningNode bool leaf_prediction 's int "nat set"
| SplitNode 't 's int "int \<Rightarrow> addr option"

fun node_stats :: "('t, 's) node \<Rightarrow> 's" where
  "node_stats (LearningNode act kind st dp dis) = st"
| "node_stats (SplitNode te st dp ch) = st"

fun node_depth :: "('t, 's) node \<Rightarrow> int" where
  "node_depth (LearningNode act kind st dp dis) = dp"
| "node_depth (SplitNode te st dp ch) = dp"

record ('t, 's) tree =
  tree_root :: "addr option"
  nodes :: "addr \<Rightarrow> ('t, 's) node"
  next_addr :: addr
  n_active_leaves :: int
  n_inactive_leaves :: int
  n_decision_nodes :: int
  leaf_prediction_option :: leaf_prediction
  remove_poor_atts :: bool
  tie_threshold :: real

definition alloc :: "('t, 's) node \<Rightarrow> ('t, 's) tree \<Rightarrow> addr \<times> ('t, 's) tree" where
  "alloc n t = (next_addr t, t\<lparr>nodes := (nodes t)(next_addr t := n), next_addr := next_addr t + 1\<rparr>)"

text \<open>
  \<^verbatim>\<open>_new_learning_node(initial_stats, parent, is_active)\<close>: the depth is one more than
  the parent's, or 0 without a parent; the class of the node follows \<^verbatim>\<open>leaf_prediction\<close>.
  (The clone of \<^verbatim>\<open>leaf_model\<close> that the model and adaptive kinds carry is left out.)
\<close>

definition new_learning_node ::
  "('t, 's) tree \<Rightarrow> 's \<Rightarrow> ('t, 's) node option \<Rightarrow> bool \<Rightarrow> ('t, 's) node" where
  "new_learning_node t initial_stats parent is_active =
     (let depth = (case parent of Some p \<Rightarrow> node_depth p + 1 | None \<Rightarrow> 0)
      in LearningNode is_active (leaf_prediction_option t) initial_stats depth {})"

text \<open>
  Modelled from the spec: \<^verbatim>\<open>_new_split_node\<close>, \<^verbatim>\<open>SplitNode.set_child\<close>,
  \<^verbatim>\<open>disable_attribute\<close> and the regressor's \<^verbatim>\<open>_deactivate_leaf\<close> are inherited from
  modules that are not among the sources. A split node has its test, the statistics
  captured at split time and children indexed by branch; a disabled attribute is no longer
  considered at the leaf; deactivation replaces the leaf in place by an inactive one with
  the same statistics and moves one leaf from the active to the inactive counter (as the
  override in hoeffding\_adaptive\_tree\_classifier.py does, without its alternate-tree
  case).
\<close>

definition new_split_node :: "'t \<Rightarrow> 's \<Rightarrow> int \<Rightarrow> ('t, 's) node" where
  "new_split_node test target_stats depth = SplitNode test target_stats depth (\<lambda>i. None)"

fun node_set_child :: "int \<Rightarrow> addr \<Rightarrow> ('t, 's) node \<Rightarrow> ('t, 's) node" where
  "node_set_child i c (SplitNode te st dp ch) = SplitNode te st dp (ch(i := Some c))"
| "node_set_child i c (LearningNode act kind st dp dis) = LearningNode act kind st dp dis"

definition set_child :: "addr \<Rightarrow> int \<Rightarrow> addr \<Rightarrow> ('t, 's) tree \<Rightarrow> ('t, 's) tree" where
  "set_child p i c t = t\<lparr>nodes := (nodes t)(p := node_set_child i c (nodes t p))\<rparr>"

fun node_disable_attributes :: "nat set \<Rightarrow> ('t, 's) node \<Rightarrow> ('t, 's) node" where
  "node_disable_attributes atts (LearningNode act kind st dp dis) = LearningNode act kind st dp (dis \<union> atts)"
| "node_disable_attributes atts (SplitNode te st dp ch) = SplitNode te st dp ch"

fun disabled_attributes :: "('t, 's) node \<Rightarrow> nat set" where
  "disabled_attributes (LearningNode act kind st dp dis) = dis"
| "disabled_attributes (SplitNode te st dp ch) = {}"

definition deactivate_leaf ::
  "addr \<Rightarrow> addr option \<Rightarrow> int \<Rightarrow> ('t, 's) tree \<Rightarrow> ('t, 's) tree" where
  "deactivate_leaf to_deactivate parent parent_branch t =
     (let (new_leaf, t1) =
            alloc (new_learning_node t (node_stats (nodes t to_deactivate))
                     (map_option (nodes t) parent) False) t;
          t2 = (case parent of
                  None \<Rightarrow> t1\<lparr>tree_root := Some new_leaf\<rparr>
                | Some p \<Rightarrow> set_child p parent_branch new_leaf t1)
      in t2\<lparr>n_active_leaves := n_active_leaves t2 - 1,
             n_inactive_leaves := n_inactive_leaves t2 + 1\<rparr>)"

text \<open>
  The first half of \<^verbatim>\<open>_attempt_to_split\<close>, up to \<^verbatim>\<open>if should_split:\<close>: the candidates
  are sorted by merit (Python's sort is stable, as \<open>sort_key\<close> is), and the result is
  \<^verbatim>\<open>should_split\<close> with the set \<^verbatim>\<open>poor_atts\<close>. The candidates come from
  \<^verbatim>\<open>get_best_split_suggestions\<close> and the bound from \<^verbatim>\<open>_hoeffding_bound\<close>, neither among
  the sources: both are arguments. \<open>get_atts\<close> is \<^verbatim>\<open>get_atts_test_depends_on\<close>.
  In \<^verbatim>\<open>best.merit > 0.0 and (second.merit / best.merit < ...)\<close> the division is only
  evaluated with a positive divisor; the one of \<^verbatim>\<open>best_ratio\<close> is not guarded and raises
  on a zero merit.
\<close>

definition second_best :: "'a list \<Rightarrow> 'a" where
  "second_best xs = xs ! (length xs - 2)"

definition poor_attributes ::
  "('t \<Rightarrow> nat list) \<Rightarrow> ('t, 's) AttributeSplitSuggestion list \<Rightarrow> real \<Rightarrow> real \<Rightarrow> real \<Rightarrow> nat list" where
  "poor_attributes get_atts best_split_suggestions best_merit best_ratio hoeffding_bound =
     concat (map (\<lambda>sg.
        case split_test sg of
          None \<Rightarrow> []
        | Some te \<Rightarrow>
            (case get_atts te of
               [a] \<Rightarrow> if merit sg / best_merit < best_ratio - 2 * hoeffding_bound then [a] else []
             | _ \<Rightarrow> []))
       best_split_suggestions)"

definition split_decision ::
  "('t \<Rightarrow> nat list) \<Rightarrow> bool \<Rightarrow> real \<Rightarrow> real \<Rightarrow> ('t, 's) AttributeSplitSuggestion list
     \<Rightarrow> py_error + (bool \<times> nat set)" where
  "split_decision get_atts remove_poor tie hoeffding_bound suggestions =
     (let best_split_suggestions = sort_key merit suggestions in
      if length best_split_suggestions < 2
      then Inr (length best_split_suggestions > 0, {})
      else
        let best_suggestion = last best_split_suggestions;
            second_best_suggestion = second_best best_split_suggestions;
            should_split =
              (merit best_suggestion > 0 \<and>
               (merit second_best_suggestion / merit best_suggestion < 1 - hoeffding_bound
                \<or> hoeffding_bound < tie))
        in if remove_poor
           then bind_err (py_div (merit second_best_suggestion) (merit best_suggestion)) (\<lambda>best_ratio.
                  Inr (should_split,
                       set (poor_attributes get_atts best_split_suggestions
                              (merit best_suggestion) best_ratio hoeffding_bound)))
           else Inr (should_split, {}))"

text \<open>
  The children of the new split node: \<^verbatim>\<open>for i in range(split_decision.num_splits())\<close>,
  each a fresh active learning node whose parent is the leaf being split.
\<close>

fun add_children ::
  "addr \<Rightarrow> ('t, 's) node \<Rightarrow> ('t, 's) AttributeSplitSuggestion \<Rightarrow> nat list
     \<Rightarrow> ('t, 's) tree \<Rightarrow> ('t, 's) tree" where
  "add_children new_split leaf sd [] t = t"
| "add_children new_split leaf sd (i # is) t =
     (let (new_child, t1) =
            alloc (new_learning_node t (resulting_stats_from_split sd i) (Some leaf) True) t
      in add_children new_split leaf sd is (set_child new_split (int i) new_child t1))"

text \<open>
  The branch of \<^verbatim>\<open>_attempt_to_split\<close> that materialises a split on a test: the new
  split node, its children, the three counter updates, and the pointer of the root or of
  the parent.
\<close>

definition split_leaf ::
  "('t, 's) AttributeSplitSuggestion \<Rightarrow> 't \<Rightarrow> addr \<Rightarrow> addr option \<Rightarrow> int \<Rightarrow> ('t, 's) tree
     \<Rightarrow> ('t, 's) tree" where
  "split_leaf sd te node parent parent_idx t1 =
     (let leaf = nodes t1 node;
          (new_split, t2) = alloc (new_split_node te (node_stats leaf) (node_depth leaf)) t1;
          t3 = add_children new_split leaf sd [0..<num_splits sd] t2;
          t4 = t3\<lparr>n_active_leaves := n_active_leaves t3 - 1\<rparr>;
          t5 = t4\<lparr>n_decision_nodes := n_decision_nodes t4 + 1\<rparr>;
          t6 = t5\<lparr>n_active_leaves := n_active_leaves t5 + int (num_splits sd)\<rparr>
      in (case parent of
            None \<Rightarrow> t6\<lparr>tree_root := Some new_split\<rparr>
          | Some p \<Rightarrow> set_child p parent_idx new_split t6))"

text \<open>
  \<^verbatim>\<open>_attempt_to_split(node, parent, parent_idx)\<close>. \<^verbatim>\<open>_enforce_size_limit\<close> (the memory
  governor) and the leaf's \<^verbatim>\<open>manage_memory\<close> are not among the sources and are
  parameters.
\<close>

definition attempt_to_split ::
  "(('t, 's) tree \<Rightarrow> ('t, 's) tree)
     \<Rightarrow> (addr \<Rightarrow> real \<Rightarrow> real \<Rightarrow> real \<Rightarrow> ('t, 's) tree \<Rightarrow> ('t, 's) tree)
     \<Rightarrow> ('t \<Rightarrow> nat list) \<Rightarrow> ('t, 's) AttributeSplitSuggestion list \<Rightarrow> real
     \<Rightarrow> addr \<Rightarrow> addr option \<Rightarrow> int \<Rightarrow> ('t, 's) tree \<Rightarrow> py_error + ('t, 's) tree" where
  "attempt_to_split enforce_size_limit manage_memory get_atts suggestions hoeffding_bound
       node parent parent_idx t =
     bind_err (split_decision get_atts (remove_poor_atts t) (tie_threshold t)
                 hoeffding_bound suggestions) (\<lambda>(should_split, poor_atts).
       let best_split_suggestions = sort_key merit suggestions;
           t1 = t\<lparr>nodes := (nodes t)(node := node_disable_attributes poor_atts (nodes t node))\<rparr>
       in if should_split
          then
            let sd = last best_split_suggestions in
            (case split_test sd of
               None \<Rightarrow> Inr (enforce_size_limit (deactivate_leaf node parent parent_idx t1))
             | Some te \<Rightarrow> Inr (enforce_size_limit (split_leaf sd te node parent parent_idx t1)))
          else if length best_split_suggestions \<ge> 2
                  \<and> merit (last best_split_suggestions) > 0
                  \<and> merit (second_best best_split_suggestions) > 0
          then
            let last_check_ratio = merit (second_best best_split_suggestions)
                                   / merit (last best_split_suggestions);
                last_check_vr = merit (last best_split_suggestions)
            in Inr (manage_memory node last_check_ratio last_check_vr hoeffding_bound t1)
          else Inr t1)"

text \<open>
  \<^verbatim>\<open>predict_one\<close>: the traversal (the \<^verbatim>\<open>node\<close> of the result of
  \<^verbatim>\<open>filter_instance_to_leaf\<close>, possibly \<^verbatim>\<open>None\<close>), \<^verbatim>\<open>is_leaf\<close>, the nodes' predictions
  and the first two components of \<^verbatim>\<open>stats\<close> are parameters.
\<close>

definition HTR_predict_one ::
  "(('t, 's) tree \<Rightarrow> addr \<Rightarrow> 'x \<Rightarrow> addr option) \<Rightarrow> (('t, 's) node \<Rightarrow> bool)
     \<Rightarrow> (('t, 's) tree \<Rightarrow> addr \<Rightarrow> 'x \<Rightarrow> py_error + real) \<Rightarrow> ('s \<Rightarrow> real \<times> real)
     \<Rightarrow> ('t, 's) tree \<Rightarrow> 'x \<Rightarrow> py_error + real" where
  "HTR_predict_one filter_instance_to_leaf is_leaf node_predict_one stats01 t x =
     (case tree_root t of
        Some r \<Rightarrow>
          (case filter_instance_to_leaf t r x of
             None \<Rightarrow> Inl AttributeError
           | Some node \<Rightarrow>
               if is_leaf (nodes t node) then node_predict_one t node x
               else py_div (snd (stats01 (node_stats (nodes t node))))
                           (fst (stats01 (node_stats (nodes t node)))))
      | None \<Rightarrow> Inr 0)"

section \<open>The Hoeffding adaptive tree classifier (creme and river)\<close>

text \<open>
  The node classes (module \<^verbatim>\<open>_nodes\<close>) are not among the sources: a node is a value of
  a type \<open>'n\<close>, and the traversals, the nodes' predictions and the nodes' \<^verbatim>\<open>learn_one\<close>
  are parameters. A class distribution is a dictionary from classes to weights.
\<close>

record 'n FoundNode =
  fn_node :: "'n option"
  fn_parent :: "'n option"
  fn_parent_branch :: int

record ('n, 'c) HATC =
  hatc_tree_root :: "'n option"
  hatc_n_active_leaves :: int
  classes :: "'c set"
  train_weight_seen_by_model :: real
  memory_estimate_period :: real

text \<open>What a Python function hands back: \<^verbatim>\<open>None\<close> when it ends without \<^verbatim>\<open>return\<close>.\<close>

datatype py_return = ReturnNone | ReturnSelf

text \<open>
  Modelled from the spec: \<^verbatim>\<open>add_dict_values(proba, dist, inplace=True)\<close> of
  \<^verbatim>\<open>utils.skmultiflow_utils\<close> is not among the sources; the spec has the leaves'
  class-weight distributions summed, so a class of \<open>dist\<close> is added to the weight
  \<open>proba\<close> holds for it, or entered with its weight.
\<close>

definition add_dict_values :: "('c \<rightharpoonup> real) \<Rightarrow> ('c \<rightharpoonup> real) \<Rightarrow> ('c \<rightharpoonup> real)" where
  "add_dict_values dict_a dict_b =
     (\<lambda>k. case dict_b k of
            None \<Rightarrow> dict_a k
          | Some v \<Rightarrow> (case dict_a k of None \<Rightarrow> Some v | Some u \<Rightarrow> Some (u + v)))"

text \<open>
  The loop \<^verbatim>\<open>for fn in found_nodes\<close> of \<^verbatim>\<open>predict_proba_one\<close>, the same in both
  versions: a result whose \<^verbatim>\<open>parent_branch\<close> is -999 is skipped; otherwise the leaf (or,
  without one, the parent) predicts and its distribution is added to \<^verbatim>\<open>proba\<close>.
\<close>

fun combine_found ::
  "('n \<Rightarrow> 'x \<Rightarrow> ('c \<rightharpoonup> real)) \<Rightarrow> 'x \<Rightarrow> 'n FoundNode list \<Rightarrow> ('c \<rightharpoonup> real)
     \<Rightarrow> py_error + ('c \<rightharpoonup> real)" where
  "combine_found node_predict x [] proba = Inr proba"
| "combine_found node_predict x (fn # fns) proba =
     (if fn_parent_branch fn \<noteq> -999
      then
        (case (case fn_node fn of None \<Rightarrow> fn_parent fn | Some n \<Rightarrow> Some n) of
           None \<Rightarrow> Inl AttributeError
         | Some leaf_node \<Rightarrow>
             combine_found node_predict x fns (add_dict_values proba (node_predict leaf_node x)))
      else combine_found node_predict x fns proba)"

text \<open>
  creme's \<^verbatim>\<open>predict_proba_one\<close>; \<open>softmax\<close> (\<^verbatim>\<open>creme.utils.math.softmax\<close>, not among the
  sources) is a parameter.
\<close>

definition HATC_creme_predict_proba_one ::
  "(('c \<rightharpoonup> real) \<Rightarrow> py_error + ('c \<rightharpoonup> real)) \<Rightarrow> ('n \<Rightarrow> bool)
     \<Rightarrow> ('n \<Rightarrow> 'x \<Rightarrow> 'n FoundNode) \<Rightarrow> ('n \<Rightarrow> 'x \<Rightarrow> 'n FoundNode list)
     \<Rightarrow> ('n \<Rightarrow> 'x \<Rightarrow> ('c \<rightharpoonup> real)) \<Rightarrow> ('n, 'c) HATC \<Rightarrow> 'x \<Rightarrow> py_error + ('c \<rightharpoonup> real)" where
  "HATC_creme_predict_proba_one softmax is_inactive_leaf filter_instance_to_leaf
       filter_instance_to_leaves node_predict h x =
     (case hatc_tree_root h of
        None \<Rightarrow> softmax Map.empty
      | Some r \<Rightarrow>
          let found_nodes = (if is_inactive_leaf r then [filter_instance_to_leaf r x]
                             else filter_instance_to_leaves r x)
          in bind_err (combine_found node_predict x found_nodes Map.empty) softmax)"

text \<open>
  river's \<^verbatim>\<open>predict_proba_one\<close>; \<open>normalize_values_in_dict\<close> is a parameter. The
  distribution starts with weight 0 for every class seen so far.
\<close>

definition HATC_river_predict_proba_one ::
  "(('c \<rightharpoonup> real) \<Rightarrow> py_error + ('c \<rightharpoonup> real))
     \<Rightarrow> ('n \<Rightarrow> 'x \<Rightarrow> 'n FoundNode list)
     \<Rightarrow> ('n \<Rightarrow> 'x \<Rightarrow> ('c \<rightharpoonup> real)) \<Rightarrow> ('n, 'c) HATC \<Rightarrow> 'x \<Rightarrow> py_error + ('c \<rightharpoonup> real)" where
  "HATC_river_predict_proba_one normalize_values_in_dict filter_instance_to_leaves node_predict h x =
     (let proba = (\<lambda>c. if c \<in> classes h then Some 0 else None) in
      case hatc_tree_root h of
        None \<Rightarrow> Inr proba
      | Some r \<Rightarrow>
          bind_err (combine_found node_predict x (filter_instance_to_leaves r x) proba)
            normalize_values_in_dict)"

text \<open>
  creme's \<^verbatim>\<open>learn_one\<close>: the root is created on the first call (\<open>fresh_leaf\<close> is what
  \<^verbatim>\<open>_new_learning_node()\<close> builds); the root's own
  \<^verbatim>\<open>learn_one\<close> (one signature for an inactive leaf, one for the adaptive nodes)
  changes the tree it is handed. The function body ends without a \<^verbatim>\<open>return\<close>.
\<close>

definition HATC_creme_learn_one ::
  "'n \<Rightarrow> ('n \<Rightarrow> bool)
     \<Rightarrow> ('x \<Rightarrow> 'y \<Rightarrow> real \<Rightarrow> ('n, 'c) HATC \<Rightarrow> ('n, 'c) HATC)
     \<Rightarrow> ('x \<Rightarrow> 'y \<Rightarrow> real \<Rightarrow> ('n, 'c) HATC \<Rightarrow> ('n, 'c) HATC)
     \<Rightarrow> 'x \<Rightarrow> 'y \<Rightarrow> real \<Rightarrow> ('n, 'c) HATC \<Rightarrow> ('n, 'c) HATC \<times> py_return" where
  "HATC_creme_learn_one fresh_leaf is_inactive_leaf inactive_learn_one ada_learn_one
       x y sample_weight h =
     (let h1 = (if hatc_tree_root h = None
                then h\<lparr>hatc_tree_root := Some fresh_leaf, hatc_n_active_leaves := 1\<rparr>
                else h);
          h2 = (if (case hatc_tree_root h1 of Some r \<Rightarrow> is_inactive_leaf r | None \<Rightarrow> False)
                then inactive_learn_one x y sample_weight h1
                else ada_learn_one x y sample_weight h1)
      in (h2, ReturnNone))"

text \<open>
  river's \<^verbatim>\<open>learn_one\<close>, which ends with \<^verbatim>\<open>return self\<close>. Python's float \<^verbatim>\<open>%\<close> raises
  on a zero divisor; \<^verbatim>\<open>_estimate_model_size\<close> is a parameter.
\<close>

definition py_mod :: "real \<Rightarrow> real \<Rightarrow> py_error + real" where
  "py_mod a b = (if b = 0 then Inl ZeroDivisionError else Inr (a - b * of_int \<lfloor>a / b\<rfloor>))"

definition HATC_river_learn_one ::
  "'n \<Rightarrow> ('x \<Rightarrow> 'c \<Rightarrow> real \<Rightarrow> ('n, 'c) HATC \<Rightarrow> ('n, 'c) HATC)
     \<Rightarrow> (('n, 'c) HATC \<Rightarrow> ('n, 'c) HATC)
     \<Rightarrow> 'x \<Rightarrow> 'c \<Rightarrow> real \<Rightarrow> ('n, 'c) HATC \<Rightarrow> py_error + (('n, 'c) HATC \<times> py_return)" where
  "HATC_river_learn_one fresh_leaf root_learn_one estimate_model_size x y sample_weight h =
     (let h1 = h\<lparr>classes := insert y (classes h)\<rparr>;
          h2 = h1\<lparr>train_weight_seen_by_model := train_weight_seen_by_model h1 + sample_weight\<rparr>;
          h3 = (if hatc_tree_root h2 = None
                then h2\<lparr>hatc_tree_root := Some fresh_leaf, hatc_n_active_leaves := 1\<rparr>
                else h2);
          h4 = root_learn_one x y sample_weight h3
      in bind_err (py_mod (train_weight_seen_by_model h4) (memory_estimate_period h4)) (\<lambda>m.
           Inr (if m = 0 then estimate_model_size h4 else h4, ReturnSelf)))"

text \<open>
  The class distributions of a list of leaves combined as the spec says, by summing:
  a class has a weight when one of the distributions has it, and the weight is the sum.
\<close>

definition summed_distribution :: "('c \<rightharpoonup> real) list \<Rightarrow> ('c \<rightharpoonup> real)" where
  "summed_distribution ds =
     (\<lambda>c. if \<exists>d \<in> set ds. d c \<noteq> None
           then Some (\<Sum>d \<leftarrow> ds. case d c of None \<Rightarrow> 0 | Some v \<Rightarrow> v)
           else None)"

text \<open>The node that predicts for a found result: the leaf, or without one the parent.\<close>

definition predicting_node :: "'n FoundNode \<Rightarrow> 'n option" where
  "predicting_node fn = (case fn_node fn of None \<Rightarrow> fn_parent fn | Some n \<Rightarrow> Some n)"

definition included :: "'n FoundNode list \<Rightarrow> 'n FoundNode list" where
  "included found_nodes = filter (\<lambda>fn. fn_parent_branch fn \<noteq> -999) found_nodes"

section \<open>The chain models (creme/multioutput/chain.py)\<close>

text \<open>
  A feature dictionary is a Python object that the caller and the callee share by
  reference: the dictionaries live in a store, \<^verbatim>\<open>copy.copy\<close> allocates a new one with the
  same items, and every assignment \<^verbatim>\<open>x[k] = v\<close> changes the store at the address the
  local name holds. A value is a float or, in \<^verbatim>\<open>ClassifierChain.predict_proba_one\<close>, a
  whole distribution.
\<close>

datatype 'l py_value = Float real | Distribution "('l \<times> real) list"

record ('k, 'l) py_heap =
  dicts :: "addr \<Rightarrow> ('k \<rightharpoonup> 'l py_value)"
  next_dict :: addr

definition copy_copy :: "addr \<Rightarrow> ('k, 'l) py_heap \<Rightarrow> addr \<times> ('k, 'l) py_heap" where
  "copy_copy x hp =
     (next_dict hp, hp\<lparr>dicts := (dicts hp)(next_dict hp := dicts hp x), next_dict := next_dict hp + 1\<rparr>)"

definition dict_set :: "addr \<Rightarrow> 'k \<Rightarrow> 'l py_value \<Rightarrow> ('k, 'l) py_heap \<Rightarrow> ('k, 'l) py_heap" where
  "dict_set x k v hp = hp\<lparr>dicts := (dicts hp)(x := (dicts hp x)(k \<mapsto> v))\<rparr>"

text \<open>
  What a call of a sub-model leaves in the dictionary it was handed: the sub-models are
  parameters and may change that dictionary (they hold no other reference into the
  store).
\<close>

definition dict_put :: "addr \<Rightarrow> ('k \<rightharpoonup> 'l py_value) \<Rightarrow> ('k, 'l) py_heap \<Rightarrow> ('k, 'l) py_heap" where
  "dict_put x d hp = hp\<lparr>dicts := (dicts hp)(x := d)\<rparr>"

text \<open>
  The chain: the model to copy, the order, and the \<^verbatim>\<open>UserDict\<close>'s items (one sub-model
  per output, in insertion order).
\<close>

record ('k, 'm) chain =
  model :: 'm
  order :: "'k list option"
  data :: "('k \<times> 'm) list"

fun setitem :: "'k \<Rightarrow> 'm \<Rightarrow> ('k \<times> 'm) list \<Rightarrow> ('k \<times> 'm) list" where
  "setitem k v [] = [(k, v)]"
| "setitem k v ((k', v') # kvs) = (if k = k' then (k, v) # kvs else (k', v') # setitem k v kvs)"

definition init_models :: "('k, 'm) chain \<Rightarrow> ('k, 'm) chain" where
  "init_models ch =
     ch\<lparr>data := fold (\<lambda>ou dt. setitem ou (model ch) dt) (case order ch of Some os \<Rightarrow> os | None \<Rightarrow> [])
                   (data ch)\<rparr>"

definition infer_order :: "('k \<times> 'y) list \<Rightarrow> ('k, 'm) chain \<Rightarrow> ('k, 'm) chain" where
  "infer_order y ch =
     (if order ch = None then init_models (ch\<lparr>order := Some (map fst y)\<rparr>) else ch)"

text \<open>
  The operations of a sub-model: both may change the sub-model and the dictionary they are
  handed. \<open>fstring ou label\<close> is \<^verbatim>\<open>f'{o}_{label}'\<close>.
\<close>

record ('k, 'l, 'm, 'y) classifier =
  multiclass :: "'m \<Rightarrow> bool"
  clf_predict_proba_one :: "'m \<Rightarrow> ('k \<rightharpoonup> 'l py_value) \<Rightarrow> ('l \<times> real) list \<times> 'm \<times> ('k \<rightharpoonup> 'l py_value)"
  clf_learn_one :: "'m \<Rightarrow> ('k \<rightharpoonup> 'l py_value) \<Rightarrow> 'y \<Rightarrow> 'm \<times> ('k \<rightharpoonup> 'l py_value)"
  true_label :: 'l
  fstring :: "'k \<Rightarrow> 'l \<Rightarrow> 'k"
  fstring_output :: "'k \<Rightarrow> 'k \<Rightarrow> 'k"

record ('k, 'l, 'm) regressor =
  reg_predict_one :: "'m \<Rightarrow> ('k \<rightharpoonup> 'l py_value) \<Rightarrow> real \<times> 'm \<times> ('k \<rightharpoonup> 'l py_value)"
  reg_learn_one :: "'m \<Rightarrow> ('k \<rightharpoonup> 'l py_value) \<Rightarrow> real \<Rightarrow> 'm \<times> ('k \<rightharpoonup> 'l py_value)"

text \<open>The loop of \<^verbatim>\<open>ClassifierChain.learn_one\<close> over the order, on the copy \<open>xc\<close>.\<close>

fun ClassifierChain_learn_loop ::
  "('k, 'l, 'm, 'y) classifier \<Rightarrow> addr \<Rightarrow> ('k \<times> 'y) list \<Rightarrow> 'k list
     \<Rightarrow> ('k, 'm) chain \<Rightarrow> ('k, 'l) py_heap \<Rightarrow> (py_error + ('k, 'm) chain) \<times> ('k, 'l) py_heap" where
  "ClassifierChain_learn_loop ops xc y [] ch hp = (Inr ch, hp)"
| "ClassifierChain_learn_loop ops xc y (ou # os) ch hp =
     (case map_of (data ch) ou of
        None \<Rightarrow> (Inl KeyError, hp)
      | Some clf \<Rightarrow>
          let (y_pred, clf1, d1) = clf_predict_proba_one ops clf (dicts hp xc);
              hp1 = dict_put xc d1 hp
          in (case map_of y ou of
                None \<Rightarrow> (Inl KeyError, hp1)
              | Some yo \<Rightarrow>
                  let (clf2, d2) = clf_learn_one ops clf1 (dicts hp1 xc) yo;
                      hp2 = dict_put xc d2 hp1;
                      ch2 = ch\<lparr>data := setitem ou clf2 (data ch)\<rparr>
                  in if multiclass ops clf2
                     then ClassifierChain_learn_loop ops xc y os ch2
                            (fold (\<lambda>(label, proba). dict_set xc (fstring ops ou label) (Float proba))
                               y_pred hp2)
                     else (case map_of y_pred (true_label ops) of
                             None \<Rightarrow> (Inl KeyError, hp2)
                           | Some p \<Rightarrow>
                               ClassifierChain_learn_loop ops xc y os ch2
                                 (dict_set xc ou (Float p) hp2))))"

definition ClassifierChain_learn_one ::
  "('k, 'l, 'm, 'y) classifier \<Rightarrow> addr \<Rightarrow> ('k \<times> 'y) list
     \<Rightarrow> ('k, 'm) chain \<Rightarrow> ('k, 'l) py_heap \<Rightarrow> (py_error + ('k, 'm) chain) \<times> ('k, 'l) py_heap" where
  "ClassifierChain_learn_one ops x y ch hp =
     (let ch1 = infer_order y ch;
          (xc, hp1) = copy_copy x hp
      in ClassifierChain_learn_loop ops xc y (case order ch1 of Some os \<Rightarrow> os | None \<Rightarrow> []) ch1 hp1)"

text \<open>
  The loop of \<^verbatim>\<open>ClassifierChain.predict_proba_one\<close>; in the multi-class branch the source
  iterates over the items of \<^verbatim>\<open>y_pred\<close>, the predictions made so far by output.
\<close>

fun ClassifierChain_predict_loop ::
  "('k, 'l, 'm, 'y) classifier \<Rightarrow> addr \<Rightarrow> 'k list \<Rightarrow> ('k \<times> ('l \<times> real) list) list
     \<Rightarrow> ('k, 'm) chain \<Rightarrow> ('k, 'l) py_heap
     \<Rightarrow> (py_error + ('k \<times> ('l \<times> real) list) list) \<times> ('k, 'm) chain \<times> ('k, 'l) py_heap" where
  "ClassifierChain_predict_loop ops xc [] y_pred ch hp = (Inr y_pred, ch, hp)"
| "ClassifierChain_predict_loop ops xc (ou # os) y_pred ch hp =
     (case map_of (data ch) ou of
        None \<Rightarrow> (Inl KeyError, ch, hp)
      | Some clf \<Rightarrow>
          let (dist, clf1, d1) = clf_predict_proba_one ops clf (dicts hp xc);
              hp1 = dict_put xc d1 hp;
              ch1 = ch\<lparr>data := setitem ou clf1 (data ch)\<rparr>;
              y_pred1 = setitem ou dist y_pred
          in if multiclass ops clf1
             then ClassifierChain_predict_loop ops xc os y_pred1 ch1
                    (fold (\<lambda>(label, proba). dict_set xc (fstring_output ops ou label) (Distribution proba))
                       y_pred1 hp1)
             else (case map_of dist (true_label ops) of
                     None \<Rightarrow> (Inl KeyError, ch1, hp1)
                   | Some p \<Rightarrow>
                       ClassifierChain_predict_loop ops xc os y_pred1 ch1
                         (dict_set xc ou (Float p) hp1)))"

definition ClassifierChain_predict_proba_one ::
  "('k, 'l, 'm, 'y) classifier \<Rightarrow> addr \<Rightarrow> ('k, 'm) chain \<Rightarrow> ('k, 'l) py_heap
     \<Rightarrow> (py_error + ('k \<times> ('l \<times> real) list) list) \<times> ('k, 'm) chain \<times> ('k, 'l) py_heap" where
  "ClassifierChain_predict_proba_one ops x ch hp =
     (let (xc, hp1) = copy_copy x hp
      in case order ch of
           None \<Rightarrow> (Inr [], ch, hp1)
         | Some os \<Rightarrow> ClassifierChain_predict_loop ops xc os [] ch hp1)"

fun RegressorChain_learn_loop ::
  "('k, 'l, 'm) regressor \<Rightarrow> addr \<Rightarrow> ('k \<times> real) list \<Rightarrow> 'k list
     \<Rightarrow> ('k, 'm) chain \<Rightarrow> ('k, 'l) py_heap \<Rightarrow> (py_error + ('k, 'm) chain) \<times> ('k, 'l) py_heap" where
  "RegressorChain_learn_loop ops xc y [] ch hp = (Inr ch, hp)"
| "RegressorChain_learn_loop ops xc y (ou # os) ch hp =
     (case map_of (data ch) ou of
        None \<Rightarrow> (Inl KeyError, hp)
      | Some reg \<Rightarrow>
          let (y_pred, reg1, d1) = reg_predict_one ops reg (dicts hp xc);
              hp1 = dict_put xc d1 hp
          in (case map_of y ou of
                None \<Rightarrow> (Inl KeyError, hp1)
              | Some yo \<Rightarrow>
                  let (reg2, d2) = reg_learn_one ops reg1 (dicts hp1 xc) yo;
                      hp2 = dict_put xc d2 hp1;
                      ch2 = ch\<lparr>data := setitem ou reg2 (data ch)\<rparr>
                  in RegressorChain_learn_loop ops xc y os ch2 (dict_set xc ou (Float y_pred) hp2)))"

definition RegressorChain_learn_one ::
  "('k, 'l, 'm) regressor \<Rightarrow> addr \<Rightarrow> ('k \<times> real) list
     \<Rightarrow> ('k, 'm) chain \<Rightarrow> ('k, 'l) py_heap \<Rightarrow> (py_error + ('k, 'm) chain) \<times> ('k, 'l) py_heap" where
  "RegressorChain_learn_one ops x y ch hp =
     (let ch1 = infer_order y ch;
          (xc, hp1) = copy_copy x hp
      in RegressorChain_learn_loop ops xc y (case order ch1 of Some os \<Rightarrow> os | None \<Rightarrow> []) ch1 hp1)"

text \<open>\<^verbatim>\<open>RegressorChain.predict_one\<close>: \<^verbatim>\<open>for o, clf in self.items()\<close>.\<close>

fun RegressorChain_predict_loop ::
  "('k, 'l, 'm) regressor \<Rightarrow> addr \<Rightarrow> ('k \<times> 'm) list \<Rightarrow> ('k \<times> real) list
     \<Rightarrow> ('k, 'm) chain \<Rightarrow> ('k, 'l) py_heap \<Rightarrow> ('k \<times> real) list \<times> ('k, 'm) chain \<times> ('k, 'l) py_heap" where
  "RegressorChain_predict_loop ops xc [] y_pred ch hp = (y_pred, ch, hp)"
| "RegressorChain_predict_loop ops xc ((ou, reg) # items) y_pred ch hp =
     (let (p, reg1, d1) = reg_predict_one ops reg (dicts hp xc);
          hp1 = dict_put xc d1 hp;
          ch1 = ch\<lparr>data := setitem ou reg1 (data ch)\<rparr>
      in RegressorChain_predict_loop ops xc items (setitem ou p y_pred) ch1
           (dict_set xc ou (Float p) hp1))"

definition RegressorChain_predict_one ::
  "('k, 'l, 'm) regressor \<Rightarrow> addr \<Rightarrow> ('k, 'm) chain \<Rightarrow> ('k, 'l) py_heap
     \<Rightarrow> ('k \<times> real) list \<times> ('k, 'm) chain \<times> ('k, 'l) py_heap" where
  "RegressorChain_predict_one ops x ch hp =
     (let (xc, hp1) = copy_copy x hp
      in RegressorChain_predict_loop ops xc (data ch) [] ch hp1)"

section \<open>Observations and concrete inputs\<close>

text \<open>
  A confidence level is a probability: \<^verbatim>\<open>log(1 / confidence)\<close> is then defined and not
  negative.
\<close>

definition valid_confidence :: "real \<Rightarrow> bool" where
  "valid_confidence c = (0 < c \<and> c \<le> 1)"

text \<open>
  The decrease side is unarmed: its cut point is still infinite and its first sample is
  still empty. Every detector built by \<open>HDDM_W_init\<close> is and stays in this state,
  because \<^verbatim>\<open>total.EWMA - epsilon > decr_cutpoint\<close> never holds of an infinite cut point.
\<close>

definition decr_unarmed :: "HDDM_W \<Rightarrow> bool" where
  "decr_unarmed d =
     (decr_cutpoint d = PosInf \<and> EWMA_estimator (sample1_decr_monitor d) < 0)"

text \<open>
  What holds of the increase side of every detector built with a weight in \<open>[0, 1]\<close> and
  valid confidence levels and fed values that are not negative: the variance proxies are
  not negative, and once a cut point is set the first sample holds an average.
\<close>

definition incr_consistent :: "HDDM_W \<Rightarrow> bool" where
  "incr_consistent d =
     (0 \<le> lambda_option d \<and> lambda_option d \<le> 1
      \<and> valid_confidence (drift_confidence d) \<and> valid_confidence (warning_confidence d)
      \<and> 0 \<le> independent_bounded_condition_sum (total d)
      \<and> 0 \<le> independent_bounded_condition_sum (sample1_incr_monitor d)
      \<and> 0 \<le> independent_bounded_condition_sum (sample2_incr_monitor d)
      \<and> (incr_cutpoint d = PosInf \<or> 0 \<le> EWMA_estimator (sample1_incr_monitor d)))"

text \<open>
  The firing condition of the increase monitor in the spec's words: the second sample's
  average exceeds the first's by more than the bound at the given confidence.
\<close>

definition incr_exceeds :: "real \<Rightarrow> HDDM_W \<Rightarrow> bool" where
  "incr_exceeds confidence d =
     (EWMA_estimator (sample2_incr_monitor d) - EWMA_estimator (sample1_incr_monitor d)
        > sqrt ((independent_bounded_condition_sum (sample1_incr_monitor d)
                 + independent_bounded_condition_sum (sample2_incr_monitor d))
                * ln (1 / confidence) / 2))"

text \<open>The state \<^verbatim>\<open>update\<close> works on after its first two assignments.\<close>

definition count_value :: "real \<Rightarrow> HDDM_W \<Rightarrow> HDDM_W" where
  "count_value v d = d\<lparr>width := width d + 1, total := fold_value (lambda_option d) v (total d)\<rparr>"

text \<open>
  The end of \<^verbatim>\<open>update\<close> when the decrease side does nothing but fold the value into
  its second sample: that fold, and the assignment of \<^verbatim>\<open>estimation\<close>.
\<close>

definition finish_update :: "real \<Rightarrow> HDDM_W \<Rightarrow> HDDM_W" where
  "finish_update v d =
     d\<lparr>sample2_decr_monitor := fold_value (lambda_option d) v (sample2_decr_monitor d),
       base := (base d)\<lparr>estimation := Some (EWMA_estimator (total d))\<rparr>\<rparr>"

text \<open>
  The detector without the attributes of the base class and without the second sample
  of the decrease side.
\<close>

definition incr_view :: "HDDM_W \<Rightarrow> HDDM_W" where
  "incr_view d = d\<lparr>base := \<lparr>in_concept_change = False, in_warning_zone = False, estimation = None\<rparr>,
                    sample2_decr_monitor := SampleInfo_init\<rparr>"


text \<open>
  What a constant stream of the value \<open>b\<close> keeps true of a detector: every average is
  either still unset or \<open>b\<close>.
\<close>

definition constant_input_inv :: "real \<Rightarrow> HDDM_W \<Rightarrow> bool" where
  "constant_input_inv b d =
     (incr_consistent d \<and> decr_unarmed d
      \<and> (EWMA_estimator (total d) < 0 \<or> EWMA_estimator (total d) = b)
      \<and> (incr_cutpoint d = PosInf \<or> EWMA_estimator (sample1_incr_monitor d) = b)
      \<and> (EWMA_estimator (sample2_incr_monitor d) < 0 \<or> EWMA_estimator (sample2_incr_monitor d) = b))"

text \<open>A base class whose constructor and \<^verbatim>\<open>reset\<close> clear the two status flags.\<close>

definition clear_status :: "DriftDetector \<Rightarrow> DriftDetector" where
  "clear_status b = b\<lparr>in_concept_change := False, in_warning_zone := False\<rparr>"

definition blank_status :: DriftDetector where
  "blank_status = \<lparr>in_concept_change = False, in_warning_zone = False, estimation = None\<rparr>"

fun is_split_node :: "('t, 's) node \<Rightarrow> bool" where
  "is_split_node (SplitNode te st dp ch) = True"
| "is_split_node (LearningNode act kind st dp dis) = False"

text \<open>Found results, a node prediction, trees, a classifier, a chain and a store.\<close>

definition example_found :: "nat FoundNode list" where
  "example_found =
     [\<lparr>fn_node = Some 1, fn_parent = None, fn_parent_branch = -1\<rparr>,
      \<lparr>fn_node = Some 2, fn_parent = Some 0, fn_parent_branch = -999\<rparr>,
      \<lparr>fn_node = None, fn_parent = Some 3, fn_parent_branch = 0\<rparr>]"

definition example_node_predict :: "nat \<Rightarrow> unit \<Rightarrow> (nat \<rightharpoonup> real)" where
  "example_node_predict n x = [0 \<mapsto> real n]"

definition example_hatc :: "nat option \<Rightarrow> nat set \<Rightarrow> (nat, nat) HATC" where
  "example_hatc r cs =
     \<lparr>hatc_tree_root = r, hatc_n_active_leaves = 1, classes = cs,
      train_weight_seen_by_model = 1, memory_estimate_period = 1000\<rparr>"

definition example_classifier :: "(nat, bool, nat, bool) classifier" where
  "example_classifier =
     \<lparr>multiclass = (\<lambda>m. False),
      clf_predict_proba_one = (\<lambda>m d. ([(True, 1/2), (False, 1/2)], m, d)),
      clf_learn_one = (\<lambda>m d y. (m + 1, d)),
      true_label = True,
      fstring = (\<lambda>k l. k),
      fstring_output = (\<lambda>k k'. k)\<rparr>"

definition example_chain :: "(nat, nat) chain" where
  "example_chain = \<lparr>model = 0, order = None, data = []\<rparr>"

definition example_heap :: "(nat, bool) py_heap" where
  "example_heap = \<lparr>dicts = (\<lambda>a. if a = 0 then [0 \<mapsto> Float 1] else Map.empty), next_dict = 1\<rparr>"

text \<open>A detector with confidences 1/2 and 3/4 and weight 1/2.\<close>

definition example_detector :: "bool \<Rightarrow> HDDM_W" where
  "example_detector two = HDDM_W_init clear_status blank_status (1/2) (3/4) (1/2) two"

text \<open>
  A detector whose decrease side is armed, as only a client that assigns the attributes
  can make it (confidences 1/2 and 3/4, weight 1/2): the decrease cut point is finite and
  the first decrease sample holds the average 1.
\<close>

definition armed_detector :: "bool \<Rightarrow> HDDM_W" where
  "armed_detector two =
     \<lparr>base = blank_status,
      total = \<lparr>EWMA_estimator = -1, independent_bounded_condition_sum = 0\<rparr>,
      sample1_decr_monitor = \<lparr>EWMA_estimator = 1, independent_bounded_condition_sum = 0\<rparr>,
      sample1_incr_monitor = \<lparr>EWMA_estimator = 0, independent_bounded_condition_sum = 7/4\<rparr>,
      sample2_decr_monitor = \<lparr>EWMA_estimator = 0, independent_bounded_condition_sum = 0\<rparr>,
      sample2_incr_monitor = \<lparr>EWMA_estimator = 1/3, independent_bounded_condition_sum = 0\<rparr>,
      incr_cutpoint = Finite 0,
      decr_cutpoint = Finite 5,
      width = 10,
      delay = 3,
      drift_confidence = 1/2,
      warning_confidence = 3/4,
      lambda_option = 1/2,
      two_sided_test = two\<rparr>"

fun node_children :: "('t, 's) node \<Rightarrow> int \<Rightarrow> addr option" where
  "node_children (SplitNode te st dp ch) = ch"
| "node_children (LearningNode act kind st dp dis) = (\<lambda>i. None)"

text \<open>What the tree holds at the position \<^verbatim>\<open>(parent, parent_idx)\<close>: the root without a parent.\<close>

definition child_at :: "('t, 's) tree \<Rightarrow> addr option \<Rightarrow> int \<Rightarrow> addr option" where
  "child_at t parent parent_idx =
     (case parent of None \<Rightarrow> tree_root t | Some p \<Rightarrow> node_children (nodes t p) parent_idx)"

text \<open>A tree whose root (address 0) is its only node, an active leaf.\<close>

definition single_leaf_tree :: "bool \<Rightarrow> (nat, unit) tree" where
  "single_leaf_tree rp =
     \<lparr>tree_root = Some 0, nodes = (\<lambda>a. LearningNode True TARGET_MEAN () 0 {}), next_addr = 1,
      n_active_leaves = 1, n_inactive_leaves = 0, n_decision_nodes = 0,
      leaf_prediction_option = TARGET_MEAN, remove_poor_atts = rp, tie_threshold = 1/20\<rparr>"

text \<open>A binary split candidate on attribute \<open>te\<close> (or the null split) with merit \<open>m\<close>.\<close>

definition candidate :: "nat option \<Rightarrow> real \<Rightarrow> (nat, unit) AttributeSplitSuggestion" where
  "candidate te m = \<lparr>split_test = te, resulting_class_distributions = [(), ()], merit = m\<rparr>"

section \<open>Helper lemmas\<close>

lemma bind_err_Inr [simp]: "bind_err (Inr x) f = f x"
  by (simp add: bind_err_def)

lemma bind_err_Inl [simp]: "bind_err (Inl e) f = Inl e"
  by (simp add: bind_err_def)

lemma py_div_bind:
  "bind_err (py_div a b) f = (if b = 0 then Inl ZeroDivisionError else f (a / b))"
  by (simp add: py_div_def)

section \<open>Properties of the split decision\<close>

lemma sorted_last_max:
  "xs \<noteq> [] \<Longrightarrow> sorted (map f xs) \<Longrightarrow> x \<in> set xs \<Longrightarrow> f x \<le> f (last xs)"
  by (induction xs) (auto split: if_splits)

lemma best_is_max:
  assumes "s \<in> set suggs"
  shows "merit s \<le> merit (last (sort_key merit suggs))"
proof -
  have "sort_key merit suggs \<noteq> []" using assms by (metis empty_iff empty_set set_sort)
  then show ?thesis
    using sorted_last_max [of "sort_key merit suggs" merit s] assms by simp
qed

lemma split_decision_short:
  "length suggs < 2 \<Longrightarrow> split_decision get_atts rp tie hb suggs = Inr (0 < length suggs, {})"
  by (simp add: split_decision_def)

lemma split_decision_long:
  "\<not> length suggs < 2 \<Longrightarrow> split_decision get_atts rp tie hb suggs =
     (let bss = sort_key merit suggs;
          should_split = (0 < merit (last bss)
             \<and> (merit (second_best bss) / merit (last bss) < 1 - hb \<or> hb < tie))
      in if rp then (if merit (last bss) = 0 then Inl ZeroDivisionError
                     else Inr (should_split, set (poor_attributes get_atts bss (merit (last bss))
                            (merit (second_best bss) / merit (last bss)) hb)))
         else Inr (should_split, {}))"
  by (simp add: split_decision_def Let_def py_div_bind)

text \<open>
  C1 (amended). A split attempt either raises \<^verbatim>\<open>ZeroDivisionError\<close> (only with
  \<^verbatim>\<open>remove_poor_atts\<close> set, at least two candidates and a best merit of 0) or decides:
  with fewer than two candidates the split is approved exactly when a candidate exists;
  with at least two it is approved exactly when the best merit is positive and the ratio
  of the second-best to the best merit is below 1 minus the Hoeffding bound, or the bound
  is below the tie threshold. The best candidate is the one of largest merit. With at
  least two candidates and a best merit of 0 the split is never approved.
\<close>

theorem split_approval:
  "(case split_decision get_atts rp tie hb suggs of
      Inl e \<Rightarrow> e = ZeroDivisionError \<and> rp \<and> 2 \<le> length suggs
                 \<and> merit (last (sort_key merit suggs)) = 0
    | Inr r \<Rightarrow>
        fst r = (if length suggs < 2 then 0 < length suggs
                 else 0 < merit (last (sort_key merit suggs))
                      \<and> (merit (second_best (sort_key merit suggs))
                           / merit (last (sort_key merit suggs)) < 1 - hb
                         \<or> hb < tie)))
   \<and> (\<forall>s \<in> set suggs. merit s \<le> merit (last (sort_key merit suggs)))
   \<and> (2 \<le> length suggs \<and> merit (last (sort_key merit suggs)) = 0
        \<longrightarrow> (\<forall>P. split_decision get_atts rp tie hb suggs \<noteq> Inr (True, P)))"
proof (cases "length suggs < 2")
  case True
  then show ?thesis
    by (simp add: split_decision_short best_is_max)
next
  case False
  then show ?thesis
    by (simp add: split_decision_long Let_def best_is_max)
qed

text \<open>
  Witness for C1: two candidates of merits 1/2 and 1 with bound 1/10 are approved; two
  candidates of merit 0 are not.
\<close>

theorem split_approval_witness:
  "split_decision (\<lambda>te. [te]) False (1/20) (1/10) [candidate (Some 0) (1/2), candidate (Some 1) 1]
     = Inr (True, {})
   \<and> (\<forall>P. split_decision (\<lambda>te. [te]) False (1/20) (1/10) [candidate (Some 0) 0, candidate None 0]
           \<noteq> Inr (True, P))"
proof -
  have "split_decision (\<lambda>te. [te]) False (1/20) (1/10) [candidate (Some 0) (1/2), candidate (Some 1) 1]
     = Inr (True, {})"
    by (simp add: split_decision_long Let_def candidate_def second_best_def)
  moreover have "\<forall>P. split_decision (\<lambda>te. [te]) False (1/20) (1/10) [candidate (Some 0) 0, candidate None 0]
           \<noteq> Inr (True, P)"
    using split_approval [where get_atts = "\<lambda>te. [te]" and rp = False and tie = "1/20"
        and hb = "1/10" and suggs = "[candidate (Some 0) 0, candidate None 0]"]
    by (simp add: candidate_def)
  ultimately show ?thesis by simp
qed

text \<open>
  Counterexample to C1 as stated: a single candidate of merit 0 that carries a split test
  is approved, and the leaf (here the root) is replaced by a split node.
\<close>

theorem zero_merit_single_candidate_splits:
  "split_decision (\<lambda>te. [te]) False (1/20) (1/10) [candidate (Some 0) 0] = Inr (True, {})
   \<and> (case attempt_to_split (\<lambda>t. t) (\<lambda>n r v h t. t) (\<lambda>te. [te]) [candidate (Some 0) 0] (1/10)
             0 None (-1) (single_leaf_tree False) of
         Inl e \<Rightarrow> False
       | Inr t' \<Rightarrow> (case tree_root t' of None \<Rightarrow> False | Some r \<Rightarrow> is_split_node (nodes t' r)))"
  by (simp add: split_decision_short attempt_to_split_def candidate_def single_leaf_tree_def
      split_leaf_def alloc_def new_split_node_def new_learning_node_def num_splits_def
      set_child_def resulting_stats_from_split_def upt_rec Let_def)

section \<open>Properties of splitting a leaf\<close>

lemma alloc_simps [simp]:
  "fst (alloc n t) = next_addr t"
  "next_addr (snd (alloc n t)) = next_addr t + 1"
  "nodes (snd (alloc n t)) = (nodes t)(next_addr t := n)"
  "tree_root (snd (alloc n t)) = tree_root t"
  "n_active_leaves (snd (alloc n t)) = n_active_leaves t"
  "n_inactive_leaves (snd (alloc n t)) = n_inactive_leaves t"
  "n_decision_nodes (snd (alloc n t)) = n_decision_nodes t"
  "leaf_prediction_option (snd (alloc n t)) = leaf_prediction_option t"
  by (simp_all add: alloc_def)

lemma set_child_simps [simp]:
  "next_addr (set_child p i c t) = next_addr t"
  "nodes (set_child p i c t) = (nodes t)(p := node_set_child i c (nodes t p))"
  "tree_root (set_child p i c t) = tree_root t"
  "n_active_leaves (set_child p i c t) = n_active_leaves t"
  "n_inactive_leaves (set_child p i c t) = n_inactive_leaves t"
  "n_decision_nodes (set_child p i c t) = n_decision_nodes t"
  "leaf_prediction_option (set_child p i c t) = leaf_prediction_option t"
  by (simp_all add: set_child_def)

lemma add_children_Cons:
  "add_children ns leaf sd (i # is) t =
     add_children ns leaf sd is
       (set_child ns (int i) (next_addr t)
          (snd (alloc (new_learning_node t (resulting_stats_from_split sd i) (Some leaf) True) t)))"
  by (simp add: alloc_def)

lemma add_children_scalars:
  "next_addr (add_children ns leaf sd is t) = next_addr t + length is
   \<and> tree_root (add_children ns leaf sd is t) = tree_root t
   \<and> n_active_leaves (add_children ns leaf sd is t) = n_active_leaves t
   \<and> n_inactive_leaves (add_children ns leaf sd is t) = n_inactive_leaves t
   \<and> n_decision_nodes (add_children ns leaf sd is t) = n_decision_nodes t
   \<and> leaf_prediction_option (add_children ns leaf sd is t) = leaf_prediction_option t"
proof (induction "is" arbitrary: t)
  case Nil
  show ?case by simp
next
  case (Cons i "is")
  show ?case unfolding add_children_Cons by (simp add: Cons.IH)
qed

lemma add_children_old:
  "a < next_addr t \<Longrightarrow> a \<noteq> ns \<Longrightarrow> nodes (add_children ns leaf sd is t) a = nodes t a"
proof (induction "is" arbitrary: t)
  case Nil
  show ?case by simp
next
  case (Cons i "is")
  show ?case unfolding add_children_Cons using Cons.prems by (simp add: Cons.IH)
qed

lemma add_children_new:
  "n < length is \<Longrightarrow> ns < next_addr t \<Longrightarrow>
   nodes (add_children ns leaf sd is t) (next_addr t + n) =
     LearningNode True (leaf_prediction_option t) (resulting_stats_from_split sd (is ! n))
       (node_depth leaf + 1) {}"
proof (induction "is" arbitrary: t n)
  case Nil
  then show ?case by simp
next
  case (Cons i "is")
  show ?case
  proof (cases n)
    case 0
    then show ?thesis unfolding add_children_Cons using Cons.prems
      by (simp add: add_children_old new_learning_node_def)
  next
    case (Suc m)
    let ?t1 = "set_child ns (int i) (next_addr t)
          (snd (alloc (new_learning_node t (resulting_stats_from_split sd i) (Some leaf) True) t))"
    have "nodes (add_children ns leaf sd is ?t1) (next_addr ?t1 + m) =
       LearningNode True (leaf_prediction_option ?t1) (resulting_stats_from_split sd (is ! m))
         (node_depth leaf + 1) {}"
      using Cons.prems Suc by (intro Cons.IH) simp_all
    then show ?thesis unfolding add_children_Cons using Suc by simp
  qed
qed

lemma add_children_split:
  "ns < next_addr t \<Longrightarrow> nodes t ns = SplitNode te st dp ch \<Longrightarrow>
   \<exists>ch'. nodes (add_children ns leaf sd is t) ns = SplitNode te st dp ch'
     \<and> (\<forall>j. j \<notin> int ` set is \<longrightarrow> ch' j = ch j)
     \<and> (distinct is \<longrightarrow> (\<forall>n < length is. ch' (int (is ! n)) = Some (next_addr t + n)))"
proof (induction "is" arbitrary: t ch)
  case Nil
  then show ?case by simp
next
  case (Cons i "is")
  let ?t1 = "set_child ns (int i) (next_addr t)
          (snd (alloc (new_learning_node t (resulting_stats_from_split sd i) (Some leaf) True) t))"
  have 1: "ns < next_addr ?t1" using Cons.prems by simp
  have 2: "nodes ?t1 ns = SplitNode te st dp (ch(int i := Some (next_addr t)))"
    using Cons.prems by simp
  from Cons.IH [OF 1 2] obtain ch' where
    a: "nodes (add_children ns leaf sd is ?t1) ns = SplitNode te st dp ch'"
    and b: "\<forall>j. j \<notin> int ` set is \<longrightarrow> ch' j = (ch(int i := Some (next_addr t))) j"
    and c: "distinct is \<longrightarrow> (\<forall>n < length is. ch' (int (is ! n)) = Some (next_addr ?t1 + n))"
    by blast
  have "\<forall>j. j \<notin> int ` set (i # is) \<longrightarrow> ch' j = ch j" using b by auto
  moreover have "distinct (i # is) \<longrightarrow> (\<forall>n < length (i # is). ch' (int ((i # is) ! n)) = Some (next_addr t + n))"
  proof (intro impI allI)
    fix n assume d: "distinct (i # is)" and n: "n < length (i # is)"
    show "ch' (int ((i # is) ! n)) = Some (next_addr t + n)"
    proof (cases n)
      case 0
      have "int i \<notin> int ` set is" using d by auto
      then show ?thesis using b 0 by simp
    next
      case (Suc m)
      then show ?thesis using c d n by simp
    qed
  qed
  ultimately show ?case unfolding add_children_Cons using a by blast
qed

lemma attempt_approved_null:
  assumes dec: "split_decision get_atts (remove_poor_atts t) (tie_threshold t) hb suggs = Inr (True, P)"
    and null: "split_test (last (sort_key merit suggs)) = None"
  shows "attempt_to_split esl mm get_atts suggs hb node parent idx t =
           Inr (esl (deactivate_leaf node parent idx
             (t\<lparr>nodes := (nodes t)(node := node_disable_attributes P (nodes t node))\<rparr>)))"
  using dec null by (simp add: attempt_to_split_def)

lemma deactivate_leaf_props:
  assumes leaf: "nodes t node = LearningNode act kind st dp dis"
    and par: "case parent of None \<Rightarrow> True | Some p \<Rightarrow> p < next_addr t \<and> is_split_node (nodes t p)"
  shows "child_at (deactivate_leaf node parent idx t) parent idx = Some (next_addr t)
     \<and> nodes (deactivate_leaf node parent idx t) (next_addr t) =
         LearningNode False (leaf_prediction_option t) st
           (case parent of None \<Rightarrow> 0 | Some p \<Rightarrow> node_depth (nodes t p) + 1) {}
     \<and> n_active_leaves (deactivate_leaf node parent idx t) = n_active_leaves t - 1
     \<and> n_inactive_leaves (deactivate_leaf node parent idx t) = n_inactive_leaves t + 1
     \<and> n_decision_nodes (deactivate_leaf node parent idx t) = n_decision_nodes t
     \<and> next_addr (deactivate_leaf node parent idx t) = next_addr t + 1"
proof (cases parent)
  case None
  then show ?thesis using leaf
    by (simp add: deactivate_leaf_def alloc_def child_at_def new_learning_node_def Let_def)
next
  case (Some p)
  then obtain te st' dp' ch where "nodes t p = SplitNode te st' dp' ch"
    using par by (cases "nodes t p") auto
  then show ?thesis using Some leaf par
    by (simp add: deactivate_leaf_def alloc_def child_at_def new_learning_node_def Let_def
        set_child_def)
qed

lemma attempt_approved_test:
  assumes dec: "split_decision get_atts (remove_poor_atts t) (tie_threshold t) hb suggs = Inr (True, P)"
    and test: "split_test (last (sort_key merit suggs)) = Some te"
  shows "attempt_to_split esl mm get_atts suggs hb node parent idx t =
           Inr (esl (split_leaf (last (sort_key merit suggs)) te node parent idx
             (t\<lparr>nodes := (nodes t)(node := node_disable_attributes P (nodes t node))\<rparr>)))"
  using dec test by (simp add: attempt_to_split_def split_leaf_def Let_def split: prod.splits)

lemma split_leaf_props:
  assumes leaf: "nodes t node = LearningNode act kind st dp dis"
    and node: "node < next_addr t"
    and par: "case parent of None \<Rightarrow> True | Some p \<Rightarrow> p < next_addr t \<and> is_split_node (nodes t p)"
  shows "child_at (split_leaf sd te node parent idx t) parent idx = Some (next_addr t)
     \<and> (\<exists>ch. nodes (split_leaf sd te node parent idx t) (next_addr t) = SplitNode te st dp ch
           \<and> (\<forall>i < num_splits sd. ch (int i) = Some (next_addr t + 1 + i))
           \<and> (\<forall>j. j \<notin> int ` {..< num_splits sd} \<longrightarrow> ch j = None))
     \<and> (\<forall>i < num_splits sd. nodes (split_leaf sd te node parent idx t) (next_addr t + 1 + i) =
           LearningNode True (leaf_prediction_option t) (resulting_stats_from_split sd i) (dp + 1) {})
     \<and> n_decision_nodes (split_leaf sd te node parent idx t) = n_decision_nodes t + 1
     \<and> n_active_leaves (split_leaf sd te node parent idx t) = n_active_leaves t + (int (num_splits sd) - 1)
     \<and> n_inactive_leaves (split_leaf sd te node parent idx t) = n_inactive_leaves t"
proof -
  let ?k = "num_splits sd"
  let ?leaf = "nodes t node"
  let ?ns = "next_addr t"
  let ?t2 = "snd (alloc (new_split_node te (node_stats ?leaf) (node_depth ?leaf)) t)"
  let ?t3 = "add_children ?ns ?leaf sd [0..<?k] ?t2"
  let ?t6 = "?t3\<lparr>n_active_leaves := n_active_leaves ?t3 - 1 + int ?k,
                  n_decision_nodes := n_decision_nodes ?t3 + 1\<rparr>"
  let ?t7 = "case parent of None \<Rightarrow> ?t6\<lparr>tree_root := Some ?ns\<rparr>
             | Some p \<Rightarrow> set_child p idx ?ns ?t6"
  have eq: "split_leaf sd te node parent idx t = ?t7"
    by (cases parent) (simp_all add: split_leaf_def Let_def alloc_def set_child_def)
  have ns2: "?ns < next_addr ?t2" by simp
  have n2: "nodes ?t2 ?ns = SplitNode te st dp (\<lambda>i. None)"
    using leaf by (simp add: new_split_node_def)
  from add_children_split [OF ns2 n2, of ?leaf sd "[0..<?k]"] obtain ch where
    ch1: "nodes ?t3 ?ns = SplitNode te st dp ch"
    and ch2: "\<forall>j. j \<notin> int ` set [0..<?k] \<longrightarrow> ch j = None"
    and ch3: "\<forall>n < length [0..<?k]. ch (int ([0..<?k] ! n)) = Some (next_addr ?t2 + n)"
    by auto
  have ch2': "\<forall>j. j \<notin> int ` {..<?k} \<longrightarrow> ch j = None"
    using ch2 by (simp add: atLeast0LessThan)
  have ch3': "\<forall>i < ?k. ch (int i) = Some (?ns + 1 + i)"
    using ch3 by simp
  have kids: "\<forall>i < ?k. nodes ?t3 (?ns + 1 + i) =
      LearningNode True (leaf_prediction_option t) (resulting_stats_from_split sd i) (dp + 1) {}"
  proof (intro allI impI)
    fix i assume i: "i < ?k"
    have "nodes ?t3 (next_addr ?t2 + i) =
        LearningNode True (leaf_prediction_option ?t2)
          (resulting_stats_from_split sd ([0..<?k] ! i)) (node_depth ?leaf + 1) {}"
      using i by (intro add_children_new) simp_all
    then show "nodes ?t3 (?ns + 1 + i) =
      LearningNode True (leaf_prediction_option t) (resulting_stats_from_split sd i) (dp + 1) {}"
      using i leaf by simp
  qed
  have sc: "next_addr ?t3 = ?ns + 1 + ?k" "n_active_leaves ?t3 = n_active_leaves t"
    "n_inactive_leaves ?t3 = n_inactive_leaves t" "n_decision_nodes ?t3 = n_decision_nodes t"
    "tree_root ?t3 = tree_root t"
    using add_children_scalars [of ?ns ?leaf sd "[0..<?k]" ?t2] by simp_all
  show ?thesis
  proof (cases parent)
    case None
    have t7: "?t7 = ?t6\<lparr>tree_root := Some ?ns\<rparr>" using None by simp
    show ?thesis unfolding eq t7 using ch1 ch2' ch3' kids sc None
      by (simp add: child_at_def)
  next
    case (Some p)
    have p: "p < ?ns" "is_split_node (nodes t p)" using par Some by simp_all
    have t7: "?t7 = set_child p idx ?ns ?t6" using Some by simp
    have pn: "nodes ?t3 p = nodes t p"
      using p by (simp add: add_children_old)
    obtain te' st' dp' ch' where sp: "nodes t p = SplitNode te' st' dp' ch'"
      using p by (cases "nodes t p") auto
    show ?thesis unfolding eq t7 using ch1 ch2' ch3' kids sc Some p pn sp
      by (simp add: child_at_def)
  qed
qed

text \<open>
  C3. An approved split attempt at an active leaf hands a tree \<open>t'\<close> to the memory
  governor (\<^verbatim>\<open>_enforce_size_limit\<close>) in which the position of the leaf holds a new node.
  If the winning candidate is the null split, that node is an inactive leaf with the
  leaf's statistics (the leaf is deactivated in place: one active leaf fewer, one
  inactive leaf more, no new decision node). Otherwise it is a split node carrying the
  winning test, with exactly one child per branch, each a fresh active leaf seeded with
  that branch's post-split statistics, one level deeper; the counters change by
  \<open>n_decision_nodes += 1\<close> and \<open>n_active_leaves += branches - 1\<close>.
\<close>

theorem approved_split_outcome:
  assumes dec: "split_decision get_atts (remove_poor_atts t) (tie_threshold t) hb suggs = Inr (True, P)"
    and leaf: "nodes t node = LearningNode act kind st dp dis"
    and node: "node < next_addr t"
    and par: "case parent of None \<Rightarrow> True | Some p \<Rightarrow> p < next_addr t \<and> is_split_node (nodes t p)"
  shows "\<exists>t'. attempt_to_split esl mm get_atts suggs hb node parent idx t = Inr (esl t')
     \<and> child_at t' parent idx = Some (next_addr t)
     \<and> (case split_test (last (sort_key merit suggs)) of
          None \<Rightarrow>
            nodes t' (next_addr t) =
              LearningNode False (leaf_prediction_option t) st
                (case parent of None \<Rightarrow> 0 | Some p \<Rightarrow> node_depth (nodes t p) + 1) {}
            \<and> n_active_leaves t' = n_active_leaves t - 1
            \<and> n_inactive_leaves t' = n_inactive_leaves t + 1
            \<and> n_decision_nodes t' = n_decision_nodes t
        | Some te \<Rightarrow>
            (\<exists>ch. nodes t' (next_addr t) = SplitNode te st dp ch
               \<and> (\<forall>i < num_splits (last (sort_key merit suggs)). ch (int i) = Some (next_addr t + 1 + i))
               \<and> (\<forall>j. j \<notin> int ` {..< num_splits (last (sort_key merit suggs))} \<longrightarrow> ch j = None))
            \<and> (\<forall>i < num_splits (last (sort_key merit suggs)).
                  nodes t' (next_addr t + 1 + i) =
                    LearningNode True (leaf_prediction_option t)
                      (resulting_stats_from_split (last (sort_key merit suggs)) i) (dp + 1) {})
            \<and> n_decision_nodes t' = n_decision_nodes t + 1
            \<and> n_active_leaves t' = n_active_leaves t + (int (num_splits (last (sort_key merit suggs))) - 1)
            \<and> n_inactive_leaves t' = n_inactive_leaves t)"
proof -
  let ?t1 = "t\<lparr>nodes := (nodes t)(node := node_disable_attributes P (nodes t node))\<rparr>"
  have leaf1: "nodes ?t1 node = LearningNode act kind st dp (dis \<union> P)" using leaf by simp
  have node1: "node < next_addr ?t1" using node by simp
  have pn: "\<And>p. parent = Some p \<Longrightarrow> p \<noteq> node" using par leaf by auto
  have par1: "case parent of None \<Rightarrow> True | Some p \<Rightarrow> p < next_addr ?t1 \<and> is_split_node (nodes ?t1 p)"
    using par pn by (cases parent) auto
  have pd: "(case parent of None \<Rightarrow> 0 | Some p \<Rightarrow> node_depth (nodes ?t1 p) + 1)
          = (case parent of None \<Rightarrow> 0 | Some p \<Rightarrow> node_depth (nodes t p) + 1)"
    using pn by (cases parent) auto
  show ?thesis
  proof (cases "split_test (last (sort_key merit suggs))")
    case None
    show ?thesis
      using attempt_approved_null [OF dec None, of esl mm node parent idx]
        deactivate_leaf_props [OF leaf1 par1, of idx] None pd
      by (intro exI [of _ "deactivate_leaf node parent idx ?t1"]) simp
  next
    case (Some te)
    show ?thesis
      using attempt_approved_test [OF dec Some, of esl mm node parent idx]
        split_leaf_props [OF leaf1 node1 par1, of "last (sort_key merit suggs)" te idx] Some
      by (intro exI [of _ "split_leaf (last (sort_key merit suggs)) te node parent idx ?t1"]) simp
  qed
qed

lemma two_candidates_approved:
  "split_decision (\<lambda>te. [te]) False (1/20) (1/10) [candidate (Some 0) (1/2), candidate (Some 1) 1]
     = Inr (True, {})"
  by (simp add: split_decision_long Let_def candidate_def second_best_def)

text \<open>
  Witness for C3: the root leaf of a one-node tree, split on the better of two
  candidates, becomes a split node with two fresh active leaves.
\<close>

theorem approved_split_outcome_witness:
  "\<exists>t'. attempt_to_split (\<lambda>t. t) (\<lambda>n r v h t. t) (\<lambda>te. [te])
           [candidate (Some 0) (1/2), candidate (Some 1) 1] (1/10) 0 None (-1) (single_leaf_tree False)
         = Inr t'
     \<and> tree_root t' = Some 1
     \<and> (\<exists>ch. nodes t' 1 = SplitNode 1 () 0 ch \<and> ch 0 = Some 2 \<and> ch 1 = Some 3)
     \<and> nodes t' 2 = LearningNode True TARGET_MEAN () 1 {}
     \<and> nodes t' 3 = LearningNode True TARGET_MEAN () 1 {}
     \<and> n_decision_nodes t' = 1 \<and> n_active_leaves t' = 2 \<and> n_inactive_leaves t' = 0"
proof -
  let ?t = "single_leaf_tree False"
  have dec: "split_decision (\<lambda>te. [te]) (remove_poor_atts ?t) (tie_threshold ?t) (1/10)
      [candidate (Some 0) (1/2), candidate (Some 1) 1] = Inr (True, {})"
    using two_candidates_approved by (simp add: single_leaf_tree_def)
  have leaf: "nodes ?t 0 = LearningNode True TARGET_MEAN () 0 {}"
    by (simp add: single_leaf_tree_def)
  have node: "0 < next_addr ?t" by (simp add: single_leaf_tree_def)
  have par: "case None of None \<Rightarrow> True | Some p \<Rightarrow> p < next_addr ?t \<and> is_split_node (nodes ?t p)"
    by simp
  have best: "last (sort_key merit [candidate (Some 0) (1/2), candidate (Some 1) 1]) = candidate (Some 1) 1"
    by (simp add: candidate_def)
  from approved_split_outcome [OF dec leaf node par, of "\<lambda>t. t" "\<lambda>n r v h t. t" "-1"]
  obtain t' ch where r:
    "attempt_to_split (\<lambda>t. t) (\<lambda>n r v h t. t) (\<lambda>te. [te])
           [candidate (Some 0) (1/2), candidate (Some 1) 1] (1/10) 0 None (-1) ?t = Inr t'"
    "child_at t' None (-1) = Some (next_addr ?t)"
    "nodes t' (next_addr ?t) = SplitNode 1 () 0 ch"
    "\<forall>i < 2. ch (int i) = Some (next_addr ?t + 1 + i)"
    "\<forall>i < 2. nodes t' (next_addr ?t + 1 + i) = LearningNode True (leaf_prediction_option ?t) () (0 + 1) {}"
    "n_decision_nodes t' = n_decision_nodes ?t + 1"
    "n_active_leaves t' = n_active_leaves ?t + (int 2 - 1)"
    "n_inactive_leaves t' = n_inactive_leaves ?t"
    unfolding best by (auto simp: candidate_def num_splits_def)
  have c0: "ch 0 = Some 2" using r(4) [rule_format, of 0] by (simp add: single_leaf_tree_def)
  have c1: "ch 1 = Some 3" using r(4) [rule_format, of 1] by (simp add: single_leaf_tree_def)
  have k0: "nodes t' 2 = LearningNode True TARGET_MEAN () 1 {}"
    using r(5) [rule_format, of 0] by (simp add: single_leaf_tree_def numeral_2_eq_2)
  have k1: "nodes t' 3 = LearningNode True TARGET_MEAN () 1 {}"
    using r(5) [rule_format, of 1] by (simp add: single_leaf_tree_def numeral_3_eq_3)
  show ?thesis
    using r(1,2,3,6,7,8) c0 c1 k0 k1
    by (intro exI [of _ t']) (simp add: single_leaf_tree_def child_at_def)
qed

section \<open>Properties of poor-attribute pruning\<close>

lemma poor_candidate_iff:
  "a \<in> set (case st of None \<Rightarrow> []
        | Some te \<Rightarrow> (case g te of [a'] \<Rightarrow> if c then [a'] else [] | _ \<Rightarrow> []))
   \<longleftrightarrow> (\<exists>te. st = Some te \<and> g te = [a] \<and> c)"
proof (cases st)
  case None
  then show ?thesis by simp
next
  case (Some te)
  show ?thesis
  proof (cases "g te")
    case Nil
    then show ?thesis using Some by simp
  next
    case (Cons x xs)
    then show ?thesis using Some by (cases xs) auto
  qed
qed

lemma set_poor_attributes:
  "set (poor_attributes get_atts bss bm br hb) =
     {a. \<exists>s \<in> set bss. \<exists>te. split_test s = Some te \<and> get_atts te = [a]
           \<and> merit s / bm < br - 2 * hb}"
  unfolding poor_attributes_def set_concat set_map
  by (simp add: poor_candidate_iff set_eq_iff) metis

text \<open>
  C4 (amended). The set of attributes disabled by a split attempt does not depend on the
  approval: with \<^verbatim>\<open>remove_poor_atts\<close> set and at least two candidates it is the set of
  attributes \<open>a\<close> that are the single attribute of some candidate's test whose merit,
  divided by the best merit, lies more than twice the Hoeffding bound below the ratio of
  the second-best to the best merit; otherwise it is empty. On a non-approved attempt
  these attributes are disabled at the leaf, which stays in the tree.
\<close>

theorem poor_attribute_pruning:
  assumes "split_decision get_atts (remove_poor_atts t) (tie_threshold t) hb suggs = Inr (b, P)"
  shows "P = (if remove_poor_atts t \<and> 2 \<le> length suggs
              then {a. \<exists>s \<in> set suggs. \<exists>te. split_test s = Some te \<and> get_atts te = [a]
                     \<and> merit s / merit (last (sort_key merit suggs))
                         < merit (second_best (sort_key merit suggs))
                             / merit (last (sort_key merit suggs)) - 2 * hb}
              else {})
     \<and> (\<not> b \<longrightarrow>
          attempt_to_split esl mm get_atts suggs hb node parent idx t =
            Inr ((if 2 \<le> length suggs \<and> 0 < merit (last (sort_key merit suggs))
                       \<and> 0 < merit (second_best (sort_key merit suggs))
                  then mm node (merit (second_best (sort_key merit suggs))
                                  / merit (last (sort_key merit suggs)))
                               (merit (last (sort_key merit suggs))) hb
                  else (\<lambda>t. t))
                 (t\<lparr>nodes := (nodes t)(node := node_disable_attributes P (nodes t node))\<rparr>)))"
proof (cases "length suggs < 2")
  case True
  then show ?thesis using assms
    by (auto simp: split_decision_short attempt_to_split_def)
next
  case False
  then show ?thesis using assms
    by (auto simp: split_decision_long attempt_to_split_def Let_def set_poor_attributes
        split: if_splits)
qed

text \<open>
  Witness for C4: three candidates of merits 1/10, 9/10 and 1 with bound 1/5: the split
  is not approved and attribute 0 is disabled at the leaf.
\<close>

theorem poor_attribute_pruning_witness:
  "attempt_to_split (\<lambda>t. t) (\<lambda>n r v h t. t) (\<lambda>te. [te])
       [candidate (Some 0) (1/10), candidate (Some 1) (9/10), candidate (Some 2) 1] (1/5)
       0 None (-1) (single_leaf_tree True)
     = Inr ((single_leaf_tree True)\<lparr>nodes := (nodes (single_leaf_tree True))
              (0 := LearningNode True TARGET_MEAN () 0 {0})\<rparr>)"
proof -
  let ?t = "single_leaf_tree True"
  let ?suggs = "[candidate (Some 0) (1/10), candidate (Some 1) (9/10), candidate (Some 2) 1]"
  have dec: "split_decision (\<lambda>te. [te]) (remove_poor_atts ?t) (tie_threshold ?t) (1/5) ?suggs
      = Inr (False, {0})"
    by (simp add: split_decision_long Let_def candidate_def second_best_def single_leaf_tree_def
        poor_attributes_def)
  show ?thesis
    using poor_attribute_pruning [OF dec, of "\<lambda>t. t" "\<lambda>n r v h t. t" 0 None "-1"]
    by (simp add: single_leaf_tree_def candidate_def second_best_def)
qed

text \<open>
  Counterexample to C4 as stated: on the same input the attempt is not approved, the
  root is still the leaf, and attribute 0 has been disabled at it.
\<close>

theorem poor_attribute_disabled_without_approval:
  "split_decision (\<lambda>te. [te]) True (1/20) (1/5)
       [candidate (Some 0) (1/10), candidate (Some 1) (9/10), candidate (Some 2) 1] = Inr (False, {0})
   \<and> (case attempt_to_split (\<lambda>t. t) (\<lambda>n r v h t. t) (\<lambda>te. [te])
             [candidate (Some 0) (1/10), candidate (Some 1) (9/10), candidate (Some 2) 1] (1/5)
             0 None (-1) (single_leaf_tree True) of
         Inl e \<Rightarrow> False
       | Inr t' \<Rightarrow> tree_root t' = Some 0 \<and> \<not> is_split_node (nodes t' 0)
                   \<and> disabled_attributes (nodes t' 0) = {0})"
  by (simp add: split_decision_long attempt_to_split_def Let_def candidate_def second_best_def
      single_leaf_tree_def poor_attributes_def)

section \<open>Properties of the change detector\<close>

lemma sqrt_log_bound_valid:
  assumes "valid_confidence c" and "0 \<le> s"
  shows "sqrt_log_bound s c = Inr (sqrt (s * ln (1 / c) / 2))"
proof -
  have "0 \<le> ln (1 / c)" using assms(1) by (simp add: valid_confidence_def)
  then have "0 \<le> s * ln (1 / c) / 2" using assms(2) by simp
  then show ?thesis using assms(1)
    by (simp add: sqrt_log_bound_def py_div_def py_log_def py_sqrt_def valid_confidence_def)
qed

lemma detect_mean_increment_exact:
  assumes c: "valid_confidence c" and e1: "0 \<le> EWMA_estimator s1"
    and i1: "0 \<le> independent_bounded_condition_sum s1"
    and i2: "0 \<le> independent_bounded_condition_sum s2"
  shows "detect_mean_increment s1 s2 c =
     Inr (EWMA_estimator s2 - EWMA_estimator s1
            > sqrt ((independent_bounded_condition_sum s1 + independent_bounded_condition_sum s2)
                    * ln (1 / c) / 2))"
proof (cases "EWMA_estimator s2 < 0")
  case True
  define b where "b = sqrt ((independent_bounded_condition_sum s1 + independent_bounded_condition_sum s2)
                    * ln (1 / c) / 2)"
  have "0 \<le> b"
    unfolding b_def using c i1 i2 by (simp add: valid_confidence_def)
  then have "\<not> b < EWMA_estimator s2 - EWMA_estimator s1" using True e1 by linarith
  then show ?thesis using True unfolding b_def by (simp add: detect_mean_increment_def)
next
  case False
  then show ?thesis using e1 i1 i2 sqrt_log_bound_valid [OF c]
    by (simp add: detect_mean_increment_def Let_def)
qed

lemma fold_value_nonneg:
  "0 \<le> v \<Longrightarrow> 0 \<le> lam \<Longrightarrow> lam \<le> 1 \<Longrightarrow> 0 \<le> EWMA_estimator (fold_value lam v s)"
  by (simp add: fold_value_def Let_def)

lemma fold_value_ibc_nonneg:
  "0 \<le> independent_bounded_condition_sum s \<Longrightarrow>
   0 \<le> independent_bounded_condition_sum (fold_value lam v s)"
  by (simp add: fold_value_def Let_def)

lemma SampleInfo_init_simps [simp]:
  "EWMA_estimator SampleInfo_init = -1"
  "independent_bounded_condition_sum SampleInfo_init = 0"
  by (simp_all add: SampleInfo_init_def)

lemma DriftDetector_all_fields:
  "(b::DriftDetector)\<lparr>in_concept_change := c, in_warning_zone := w, estimation := e\<rparr>
     = \<lparr>in_concept_change = c, in_warning_zone = w, estimation = e\<rparr>"
  by (cases b) simp

lemma update_unfold:
  "update sr v d =
     bind_err (update_incr_statistics v (drift_confidence d) (count_value v d)) (\<lambda>d3.
     bind_err (incr_branch sr d3) (\<lambda>d4.
     bind_err (update_decr_statistics v (drift_confidence d4) d4) (\<lambda>d5.
     bind_err (decr_branch sr d5) (\<lambda>d6.
       Inr (d6\<lparr>base := (base d6)\<lparr>estimation := Some (EWMA_estimator (total d6))\<rparr>\<rparr>,
            in_concept_change (base d6), in_warning_zone (base d6))))))"
  by (simp add: update_def count_value_def Let_def)

lemma sqrt_log_bound_zero:
  "sqrt_log_bound s c = Inr e \<Longrightarrow> sqrt_log_bound 0 c = Inr 0"
  by (auto simp: sqrt_log_bound_def py_div_def py_log_def py_sqrt_def bind_err_def
      split: if_splits sum.splits)

lemma decr_idle:
  assumes "decr_unarmed d" and "sqrt_log_bound (independent_bounded_condition_sum (total d)) (drift_confidence d) = Inr e"
  shows "bind_err (update_decr_statistics v (drift_confidence d) d) (\<lambda>d5.
         bind_err (decr_branch sr d5) (\<lambda>d6.
           Inr (d6\<lparr>base := (base d6)\<lparr>estimation := Some (EWMA_estimator (total d6))\<rparr>\<rparr>,
                in_concept_change (base d6), in_warning_zone (base d6))))
       = Inr (finish_update v d, in_concept_change (base d), in_warning_zone (base d))"
  using assms
  by (simp add: update_decr_statistics_def decr_unarmed_def decr_branch_def monitor_mean_decr_def
      detect_mean_increment_def finish_update_def)

lemma update_incr_statistics_fields:
  assumes "update_incr_statistics v c d = Inr d3"
  shows "total d3 = total d" "decr_cutpoint d3 = decr_cutpoint d"
    "sample1_decr_monitor d3 = sample1_decr_monitor d"
    "sample2_decr_monitor d3 = sample2_decr_monitor d"
    "drift_confidence d3 = drift_confidence d" "warning_confidence d3 = warning_confidence d"
    "lambda_option d3 = lambda_option d" "two_sided_test d3 = two_sided_test d"
    "base d3 = base d" "width d3 = width d"
    "\<exists>e. sqrt_log_bound (independent_bounded_condition_sum (total d)) c = Inr e"
  using assms
  by (auto simp: update_incr_statistics_def bind_err_def split: sum.splits if_splits)

lemma incr_branch_cases:
  assumes "incr_branch sr d3 = Inr d4"
  shows "d4 = set_status True False (reset sr d3) \<or> d4 = set_status False True d3
          \<or> d4 = set_status False False d3"
  using assms by (auto simp: incr_branch_def bind_err_def split: sum.splits if_splits)

lemma count_value_fields [simp]:
  "decr_cutpoint (count_value v d) = decr_cutpoint d"
  "sample1_decr_monitor (count_value v d) = sample1_decr_monitor d"
  "sample2_decr_monitor (count_value v d) = sample2_decr_monitor d"
  "drift_confidence (count_value v d) = drift_confidence d"
  "warning_confidence (count_value v d) = warning_confidence d"
  "lambda_option (count_value v d) = lambda_option d"
  "two_sided_test (count_value v d) = two_sided_test d"
  "base (count_value v d) = base d"
  "incr_cutpoint (count_value v d) = incr_cutpoint d"
  "sample1_incr_monitor (count_value v d) = sample1_incr_monitor d"
  "sample2_incr_monitor (count_value v d) = sample2_incr_monitor d"
  "total (count_value v d) = fold_value (lambda_option d) v (total d)"
  "width (count_value v d) = width d + 1"
  "delay (count_value v d) = delay d"
  by (simp_all add: count_value_def)

lemma update_decr_unarmed:
  assumes u: "decr_unarmed d"
  shows "update sr v d =
     bind_err (update_incr_statistics v (drift_confidence d) (count_value v d)) (\<lambda>d3.
     bind_err (incr_branch sr d3) (\<lambda>d4.
       Inr (finish_update v d4, in_concept_change (base d4), in_warning_zone (base d4))))"
proof (cases "update_incr_statistics v (drift_confidence d) (count_value v d)")
  case (Inl e)
  then show ?thesis by (simp add: update_unfold)
next
  case (Inr d3)
  note f = update_incr_statistics_fields [OF Inr]
  from f(11) obtain e where e: "sqrt_log_bound (independent_bounded_condition_sum (total d3))
      (drift_confidence d) = Inr e"
    using f(1) by auto
  have u3: "decr_unarmed d3" using u f by (simp add: decr_unarmed_def)
  show ?thesis
  proof (cases "incr_branch sr d3")
    case (Inl e')
    then show ?thesis using Inr by (simp add: update_unfold)
  next
    case d4: (Inr d4)
    have "decr_unarmed d4 \<and> (\<exists>e. sqrt_log_bound (independent_bounded_condition_sum (total d4))
              (drift_confidence d4) = Inr e)"
      using incr_branch_cases [OF d4] u3 e f(5) sqrt_log_bound_zero [OF e]
      by (auto simp: set_status_def reset_def decr_unarmed_def)
    then obtain e4 where "decr_unarmed d4"
      "sqrt_log_bound (independent_bounded_condition_sum (total d4)) (drift_confidence d4) = Inr e4"
      by blast
    from decr_idle [OF this] show ?thesis using Inr d4 by (simp add: update_unfold)
  qed
qed

lemma set_status_fields [simp]:
  "in_concept_change (base (set_status c w d)) = c"
  "in_warning_zone (base (set_status c w d)) = w"
  "total (set_status c w d) = total d"
  "decr_cutpoint (set_status c w d) = decr_cutpoint d"
  "incr_cutpoint (set_status c w d) = incr_cutpoint d"
  "sample1_decr_monitor (set_status c w d) = sample1_decr_monitor d"
  "sample2_decr_monitor (set_status c w d) = sample2_decr_monitor d"
  "sample1_incr_monitor (set_status c w d) = sample1_incr_monitor d"
  "sample2_incr_monitor (set_status c w d) = sample2_incr_monitor d"
  "drift_confidence (set_status c w d) = drift_confidence d"
  "warning_confidence (set_status c w d) = warning_confidence d"
  "lambda_option (set_status c w d) = lambda_option d"
  "two_sided_test (set_status c w d) = two_sided_test d"
  "width (set_status c w d) = width d"
  "delay (set_status c w d) = delay d"
  by (simp_all add: set_status_def)

lemma finish_update_fields [simp]:
  "total (finish_update v d) = total d"
  "decr_cutpoint (finish_update v d) = decr_cutpoint d"
  "incr_cutpoint (finish_update v d) = incr_cutpoint d"
  "sample1_decr_monitor (finish_update v d) = sample1_decr_monitor d"
  "sample2_decr_monitor (finish_update v d) = fold_value (lambda_option d) v (sample2_decr_monitor d)"
  "sample1_incr_monitor (finish_update v d) = sample1_incr_monitor d"
  "sample2_incr_monitor (finish_update v d) = sample2_incr_monitor d"
  "drift_confidence (finish_update v d) = drift_confidence d"
  "warning_confidence (finish_update v d) = warning_confidence d"
  "lambda_option (finish_update v d) = lambda_option d"
  "two_sided_test (finish_update v d) = two_sided_test d"
  "width (finish_update v d) = width d"
  "delay (finish_update v d) = delay d"
  "base (finish_update v d) = (base d)\<lparr>estimation := Some (EWMA_estimator (total d))\<rparr>"
  by (simp_all add: finish_update_def)

lemma reset_fields [simp]:
  "total (reset sr d) = SampleInfo_init"
  "decr_cutpoint (reset sr d) = PosInf"
  "incr_cutpoint (reset sr d) = PosInf"
  "sample1_decr_monitor (reset sr d) = SampleInfo_init"
  "sample2_decr_monitor (reset sr d) = SampleInfo_init"
  "sample1_incr_monitor (reset sr d) = SampleInfo_init"
  "sample2_incr_monitor (reset sr d) = SampleInfo_init"
  "drift_confidence (reset sr d) = drift_confidence d"
  "warning_confidence (reset sr d) = warning_confidence d"
  "lambda_option (reset sr d) = lambda_option d"
  "two_sided_test (reset sr d) = two_sided_test d"
  "width (reset sr d) = 0"
  "delay (reset sr d) = 0"
  "base (reset sr d) = sr (base d)"
  by (simp_all add: reset_def)

lemma decr_unarmed_reset [simp]: "decr_unarmed (reset sr d)"
  by (simp add: decr_unarmed_def)

lemma decr_unarmed_init [simp]: "decr_unarmed (HDDM_W_init sr b0 dc wc lam two)"
  by (simp add: decr_unarmed_def HDDM_W_init_def)

lemma decr_unarmed_update:
  assumes "decr_unarmed d" and "update sr v d = Inr r"
  shows "decr_unarmed (fst r)"
proof -
  from assms obtain d3 d4 where d3: "update_incr_statistics v (drift_confidence d) (count_value v d) = Inr d3"
    and d4: "incr_branch sr d3 = Inr d4" and r: "fst r = finish_update v d4"
    by (auto simp: update_decr_unarmed bind_err_def split: sum.splits)
  have "decr_unarmed d3" using assms(1) update_incr_statistics_fields [OF d3]
    by (simp add: decr_unarmed_def)
  then have "decr_unarmed d4" using incr_branch_cases [OF d4]
    by (auto simp: decr_unarmed_def)
  then show ?thesis using r by (simp add: decr_unarmed_def)
qed

lemma reachable_decr_unarmed:
  "decr_unarmed d \<Longrightarrow> run_calls sr cs d = Inr d' \<Longrightarrow> decr_unarmed d'"
proof (induction cs arbitrary: d)
  case Nil
  then show ?case by simp
next
  case (Cons c cs)
  show ?case
  proof (cases c)
    case (CallUpdate v)
    then obtain r where r: "update sr v d = Inr r" and rest: "run_calls sr cs (fst r) = Inr d'"
      using Cons.prems(2) by (auto simp: bind_err_def split: sum.splits)
    from Cons.IH [OF decr_unarmed_update [OF Cons.prems(1) r] rest] show ?thesis .
  next
    case CallReset
    then show ?thesis using Cons.prems(2) Cons.IH [of "reset sr d"] by simp
  qed
qed

lemma decrease_monitor_idle:
  assumes "run_calls sr cs (HDDM_W_init sr b0 dc wc lam two) = Inr d"
  shows "monitor_mean_decr c d = Inr False"
    and "update sr v d = Inr (d5, cflag, wflag) \<Longrightarrow> monitor_mean_decr c d5 = Inr False"
proof -
  have u: "decr_unarmed d" using reachable_decr_unarmed [OF decr_unarmed_init assms] .
  then show "monitor_mean_decr c d = Inr False"
    by (simp add: decr_unarmed_def monitor_mean_decr_def detect_mean_increment_def)
  assume r: "update sr v d = Inr (d5, cflag, wflag)"
  from decr_unarmed_update [OF u r] show "monitor_mean_decr c d5 = Inr False"
    by (simp add: decr_unarmed_def monitor_mean_decr_def detect_mean_increment_def)
qed

lemma update_decr_statistics_base:
  "update_decr_statistics v c d = Inr d5 \<Longrightarrow> base d5 = base d \<and> total d5 = total d
     \<and> two_sided_test d5 = two_sided_test d \<and> drift_confidence d5 = drift_confidence d"
  by (auto simp: update_decr_statistics_def bind_err_def split: sum.splits if_splits)

lemma reset_explicit:
  "(reset sr d)\<lparr>base := b\<rparr> =
     d\<lparr>base := b,
       total := \<lparr>EWMA_estimator = -1, independent_bounded_condition_sum = 0\<rparr>,
       sample1_decr_monitor := \<lparr>EWMA_estimator = -1, independent_bounded_condition_sum = 0\<rparr>,
       sample1_incr_monitor := \<lparr>EWMA_estimator = -1, independent_bounded_condition_sum = 0\<rparr>,
       sample2_decr_monitor := \<lparr>EWMA_estimator = -1, independent_bounded_condition_sum = 0\<rparr>,
       sample2_incr_monitor := \<lparr>EWMA_estimator = -1, independent_bounded_condition_sum = 0\<rparr>,
       incr_cutpoint := PosInf, decr_cutpoint := PosInf, width := 0, delay := 0\<rparr>"
  by (simp add: reset_def SampleInfo_init_def)

text \<open>
  C7 (amended). In every detector state, for every value and every base class:
  with \<open>d4\<close> the state the increase-side tests leave and \<open>d5\<close> the state after
  \<^verbatim>\<open>_update_decr_statistics\<close>, if the detector is two-sided and the decrease monitor
  fires at \<^verbatim>\<open>drift_confidence\<close>, \<^verbatim>\<open>update\<close> resets the detector (all five samples
  unset, both cut points infinite, \<^verbatim>\<open>width\<close> and \<^verbatim>\<open>delay\<close> 0) and returns the two flags
  as the base class's \<^verbatim>\<open>reset\<close> leaves them, whatever the increase-side tests had set;
  otherwise it returns the flags the increase-side tests set and changes nothing but
  \<^verbatim>\<open>estimation\<close>.
\<close>

theorem decrease_test_outcome:
  "update sr v d =
     bind_err (update_incr_statistics v (drift_confidence d) (count_value v d)) (\<lambda>d3.
     bind_err (incr_branch sr d3) (\<lambda>d4.
     bind_err (update_decr_statistics v (drift_confidence d4) d4) (\<lambda>d5.
     bind_err (if two_sided_test d5 then monitor_mean_decr (drift_confidence d5) d5 else Inr False)
       (\<lambda>fires.
          if fires
          then Inr (d5\<lparr>base := (sr (base d4))\<lparr>estimation := Some (-1)\<rparr>,
                       total := \<lparr>EWMA_estimator = -1, independent_bounded_condition_sum = 0\<rparr>,
                       sample1_decr_monitor := \<lparr>EWMA_estimator = -1, independent_bounded_condition_sum = 0\<rparr>,
                       sample1_incr_monitor := \<lparr>EWMA_estimator = -1, independent_bounded_condition_sum = 0\<rparr>,
                       sample2_decr_monitor := \<lparr>EWMA_estimator = -1, independent_bounded_condition_sum = 0\<rparr>,
                       sample2_incr_monitor := \<lparr>EWMA_estimator = -1, independent_bounded_condition_sum = 0\<rparr>,
                       incr_cutpoint := PosInf, decr_cutpoint := PosInf, width := 0, delay := 0\<rparr>,
                    in_concept_change (sr (base d4)), in_warning_zone (sr (base d4)))
          else Inr (d5\<lparr>base := (base d4)\<lparr>estimation := Some (EWMA_estimator (total d4))\<rparr>\<rparr>,
                    in_concept_change (base d4), in_warning_zone (base d4))))))"
proof (cases "update_incr_statistics v (drift_confidence d) (count_value v d)")
  case (Inl e)
  then show ?thesis by (simp add: update_unfold)
next
  case d3: (Inr d3)
  show ?thesis
  proof (cases "incr_branch sr d3")
    case (Inl e)
    then show ?thesis using d3 by (simp add: update_unfold)
  next
    case d4: (Inr d4)
    show ?thesis
    proof (cases "update_decr_statistics v (drift_confidence d4) d4")
      case (Inl e)
      then show ?thesis using d3 d4 by (simp add: update_unfold)
    next
      case d5: (Inr d5)
      note f = update_decr_statistics_base [OF d5]
      show ?thesis
      proof (cases "if two_sided_test d5 then monitor_mean_decr (drift_confidence d5) d5 else Inr False")
        case (Inl e)
        then show ?thesis using d3 d4 d5 by (simp add: update_unfold decr_branch_def)
      next
        case (Inr fires)
        then show ?thesis
          using d3 d4 d5 f
            reset_explicit [where sr = sr and d = d5
              and b = "(sr (base d4))\<lparr>estimation := Some (-1)\<rparr>"]
          by (simp add: update_unfold decr_branch_def)
      qed
    qed
  qed
qed

lemma incr_statistics_consistent:
  assumes ic: "incr_consistent d" and v: "0 \<le> v"
  shows "\<exists>d3. update_incr_statistics v (drift_confidence d) (count_value v d) = Inr d3
     \<and> incr_consistent d3 \<and> 0 \<le> EWMA_estimator (sample1_incr_monitor d3)"
proof -
  let ?d2 = "count_value v d"
  have lam: "0 \<le> lambda_option d" "lambda_option d \<le> 1" using ic by (simp_all add: incr_consistent_def)
  have t2: "0 \<le> independent_bounded_condition_sum (total ?d2)"
    using ic by (simp add: incr_consistent_def fold_value_ibc_nonneg)
  have e2: "0 \<le> EWMA_estimator (total ?d2)"
    using v lam by (simp add: fold_value_nonneg)
  have c: "valid_confidence (drift_confidence d)" using ic by (simp add: incr_consistent_def)
  note b = sqrt_log_bound_valid [OF c t2]
  show ?thesis
  proof (cases "float_less (EWMA_estimator (total ?d2)
        + sqrt (independent_bounded_condition_sum (total ?d2) * ln (1 / drift_confidence d) / 2))
        (incr_cutpoint ?d2)")
    case True
    then show ?thesis using b t2 e2 ic
      by (simp add: update_incr_statistics_def incr_consistent_def)
  next
    case False
    then have "incr_cutpoint d \<noteq> PosInf" by (cases "incr_cutpoint d") auto
    then have "0 \<le> EWMA_estimator (sample1_incr_monitor d)"
      using ic by (simp add: incr_consistent_def)
    then show ?thesis using False b t2 ic
      by (simp add: update_incr_statistics_def incr_consistent_def fold_value_ibc_nonneg)
  qed
qed

lemma monitor_mean_incr_exact:
  assumes "incr_consistent d3" and "0 \<le> EWMA_estimator (sample1_incr_monitor d3)"
    and "valid_confidence c"
  shows "monitor_mean_incr c d3 = Inr (incr_exceeds c d3)"
  using assms detect_mean_increment_exact [of c "sample1_incr_monitor d3" "sample2_incr_monitor d3"]
  by (simp add: monitor_mean_incr_def incr_exceeds_def incr_consistent_def)

lemma incr_branch_exact:
  assumes ic: "incr_consistent d3" and e: "0 \<le> EWMA_estimator (sample1_incr_monitor d3)"
  shows "incr_branch sr d3 =
     Inr (if incr_exceeds (drift_confidence d3) d3 then set_status True False (reset sr d3)
          else if incr_exceeds (warning_confidence d3) d3 then set_status False True d3
          else set_status False False d3)"
proof -
  have "valid_confidence (drift_confidence d3)" "valid_confidence (warning_confidence d3)"
    using ic by (simp_all add: incr_consistent_def)
  then show ?thesis
    by (simp add: incr_branch_def monitor_mean_incr_exact [OF ic e])
qed

lemma update_consistent:
  assumes ic: "incr_consistent d" and u: "decr_unarmed d" and v: "0 \<le> v"
  shows "\<exists>d3. update_incr_statistics v (drift_confidence d) (count_value v d) = Inr d3
     \<and> incr_consistent d3
     \<and> update sr v d =
         (if incr_exceeds (drift_confidence d) d3
          then Inr (finish_update v (set_status True False (reset sr d3)), True, False)
          else if incr_exceeds (warning_confidence d) d3
          then Inr (finish_update v (set_status False True d3), False, True)
          else Inr (finish_update v (set_status False False d3), False, False))"
proof -
  from incr_statistics_consistent [OF ic v] obtain d3 where
    d3: "update_incr_statistics v (drift_confidence d) (count_value v d) = Inr d3"
    and ic3: "incr_consistent d3" and e3: "0 \<le> EWMA_estimator (sample1_incr_monitor d3)"
    by blast
  note f = update_incr_statistics_fields [OF d3]
  have "update sr v d =
         (if incr_exceeds (drift_confidence d) d3
          then Inr (finish_update v (set_status True False (reset sr d3)), True, False)
          else if incr_exceeds (warning_confidence d) d3
          then Inr (finish_update v (set_status False True d3), False, True)
          else Inr (finish_update v (set_status False False d3), False, False))"
    using f(5,6) by (simp add: update_decr_unarmed [OF u] d3 incr_branch_exact [OF ic3 e3])
  then show ?thesis using d3 ic3 by blast
qed

lemma incr_consistent_init:
  assumes "valid_confidence dc" "valid_confidence wc" "0 \<le> lam" "lam \<le> 1"
  shows "incr_consistent (HDDM_W_init sr b0 dc wc lam two)"
  using assms by (simp add: incr_consistent_def HDDM_W_init_def)


lemma incr_consistent_status:
  "incr_consistent d \<Longrightarrow> incr_consistent (finish_update v (set_status c w d))"
  by (simp add: incr_consistent_def)






lemma update_incr_statistics_commute:
  "update_incr_statistics v c (count_value v (d\<lparr>base := b, sample2_decr_monitor := x\<rparr>)) =
     map_sum id (\<lambda>d3. d3\<lparr>base := b, sample2_decr_monitor := x\<rparr>)
       (update_incr_statistics v c (count_value v d))"
  by (simp add: update_incr_statistics_def count_value_def bind_err_def split: sum.splits)

lemma incr_branch_commute:
  "map_sum id (\<lambda>d4. (incr_view (finish_update v d4), in_concept_change (base d4), in_warning_zone (base d4)))
     (incr_branch sr (d3\<lparr>base := b, sample2_decr_monitor := x\<rparr>)) =
   map_sum id (\<lambda>d4. (incr_view (finish_update v d4), in_concept_change (base d4), in_warning_zone (base d4)))
     (incr_branch sr d3)"
  by (simp add: incr_branch_def monitor_mean_incr_def bind_err_def incr_view_def finish_update_def
      set_status_def reset_def split: sum.splits)

lemma map_sum_bind_Inr:
  "map_sum id f (bind_err m (\<lambda>x. Inr (g x))) = map_sum id (\<lambda>x. f (g x)) m"
  by (cases m) simp_all

lemma decr_unarmed_fields [simp]:
  "decr_unarmed (d\<lparr>base := b, sample2_decr_monitor := x\<rparr>) = decr_unarmed d"
  by (simp add: decr_unarmed_def)

lemma update_view_fields:
  assumes u: "decr_unarmed d"
  shows "map_sum id (\<lambda>r. (incr_view (fst r), snd r))
           (update sr v (d\<lparr>base := b, sample2_decr_monitor := x\<rparr>))
       = map_sum id (\<lambda>r. (incr_view (fst r), snd r)) (update sr v d)"
proof (cases "update_incr_statistics v (drift_confidence d) (count_value v d)")
  case (Inl e)
  then show ?thesis
    using u by (simp add: update_decr_unarmed update_incr_statistics_commute)
next
  case (Inr d3)
  then show ?thesis
    using u incr_branch_commute [where v = v and sr = sr and ?d3.0 = d3 and b = b and x = x]
    by (simp add: update_decr_unarmed update_incr_statistics_commute map_sum_bind_Inr)
qed

lemma incr_view_eqD:
  "incr_view d = incr_view e \<Longrightarrow>
   e = d\<lparr>base := base e, sample2_decr_monitor := sample2_decr_monitor e\<rparr>"
  by (cases d, cases e, simp add: incr_view_def)

lemma update_view:
  assumes u: "decr_unarmed d" and ve: "incr_view d = incr_view e"
  shows "map_sum id (\<lambda>r. (incr_view (fst r), snd r)) (update sr v e)
       = map_sum id (\<lambda>r. (incr_view (fst r), snd r)) (update sr v d)"
  using update_view_fields [OF u, where sr = sr and v = v and b = "base e" and x = "sample2_decr_monitor e"] incr_view_eqD [OF ve]
  by simp

lemma feed_view:
  "decr_unarmed d \<Longrightarrow> incr_view d = incr_view e \<Longrightarrow>
   map_sum id (\<lambda>r. (incr_view (fst r), snd r)) (feed sr vs e)
     = map_sum id (\<lambda>r. (incr_view (fst r), snd r)) (feed sr vs d)"
proof (induction vs arbitrary: d e)
  case Nil
  then show ?case by simp
next
  case (Cons v vs)
  note uv = update_view [OF Cons.prems, where sr = sr and v = v]
  show ?case
  proof (cases "update sr v d")
    case (Inl x)
    then have "update sr v e = Inl x" using uv by (cases "update sr v e") simp_all
    then show ?thesis using Inl by simp
  next
    case (Inr r)
    then obtain r' where r': "update sr v e = Inr r'" and v': "incr_view (fst r') = incr_view (fst r)"
      and s': "snd r' = snd r"
      using uv by (cases "update sr v e") auto
    have u': "decr_unarmed (fst r)" using decr_unarmed_update [OF Cons.prems(1) Inr] .
    from Cons.IH [OF u' v' [symmetric], of ] show ?thesis
      using Inr r' s'
      by (cases "feed sr vs (fst r)"; cases "feed sr vs (fst r')") auto
  qed
qed

lemma incr_branch_base:
  "bind_err (incr_branch sr (d3\<lparr>base := b\<rparr>))
       (\<lambda>d4. Inr (finish_update v d4, in_concept_change (base d4), in_warning_zone (base d4)))
   = bind_err (incr_branch sr d3)
       (\<lambda>d4. Inr (finish_update v d4, in_concept_change (base d4), in_warning_zone (base d4)))"
  by (simp add: incr_branch_def monitor_mean_incr_def bind_err_def finish_update_def
      set_status_def reset_def DriftDetector_all_fields split: sum.splits)

lemma update_base_irrelevant:
  assumes u: "decr_unarmed d"
  shows "update sr v (d\<lparr>base := b\<rparr>) = update sr v d"
proof -
  have eq: "d\<lparr>base := b\<rparr> = d\<lparr>base := b, sample2_decr_monitor := sample2_decr_monitor d\<rparr>"
    by simp
  have u': "decr_unarmed (d\<lparr>base := b\<rparr>)" using u by (simp add: decr_unarmed_def)
  have c: "update_incr_statistics v (drift_confidence d) (count_value v (d\<lparr>base := b\<rparr>)) =
     map_sum id (\<lambda>d3. d3\<lparr>base := b\<rparr>)
       (update_incr_statistics v (drift_confidence d) (count_value v d))"
    by (simp add: update_incr_statistics_def count_value_def bind_err_def split: sum.splits)
  show ?thesis
  proof (cases "update_incr_statistics v (drift_confidence d) (count_value v d)")
    case (Inl e)
    then show ?thesis using c by (simp add: update_decr_unarmed [OF u] update_decr_unarmed [OF u'])
  next
    case (Inr d3)
    then show ?thesis using c incr_branch_base [where sr = sr and ?d3.0 = d3 and b = b and v = v]
      by (simp add: update_decr_unarmed [OF u] update_decr_unarmed [OF u'])
  qed
qed

lemma reset_is_init:
  "reset sr d = (HDDM_W_init sr b0 (drift_confidence d) (warning_confidence d) (lambda_option d)
                   (two_sided_test d))\<lparr>base := sr (base d)\<rparr>"
  by (cases d) (simp add: reset_def HDDM_W_init_def)

lemma feed_reset_eq_init:
  "feed sr (v # vs) (reset sr d) =
   feed sr (v # vs) (HDDM_W_init sr b0 (drift_confidence d) (warning_confidence d)
                       (lambda_option d) (two_sided_test d))"
proof -
  have "update sr v (reset sr d) =
        update sr v (HDDM_W_init sr b0 (drift_confidence d) (warning_confidence d)
                       (lambda_option d) (two_sided_test d))"
    unfolding reset_is_init [of sr d b0] by (rule update_base_irrelevant) simp
  then show ?thesis by simp
qed

lemma fold_value_constant:
  "EWMA_estimator s < 0 \<or> EWMA_estimator s = b \<Longrightarrow> EWMA_estimator (fold_value lam b s) = b"
  by (auto simp: fold_value_def Let_def algebra_simps)

lemma not_exceeds:
  assumes "incr_consistent d" and "valid_confidence c"
    and "EWMA_estimator (sample2_incr_monitor d) \<le> EWMA_estimator (sample1_incr_monitor d)"
  shows "\<not> incr_exceeds c d"
proof -
  define bd where "bd = sqrt ((independent_bounded_condition_sum (sample1_incr_monitor d)
                 + independent_bounded_condition_sum (sample2_incr_monitor d)) * ln (1 / c) / 2)"
  have "0 \<le> bd" unfolding bd_def using assms(1,2)
    by (simp add: incr_consistent_def valid_confidence_def)
  then have "\<not> bd < EWMA_estimator (sample2_incr_monitor d) - EWMA_estimator (sample1_incr_monitor d)"
    using assms(3) by linarith
  then show ?thesis unfolding bd_def incr_exceeds_def by simp
qed

lemma update_constant:
  assumes inv: "constant_input_inv b d" and b: "0 \<le> b"
  shows "\<exists>d'. update sr b d = Inr (d', False, False) \<and> constant_input_inv b d'
            \<and> EWMA_estimator (total d') = b"
proof -
  have ic: "incr_consistent d" and u: "decr_unarmed d" using inv by (simp_all add: constant_input_inv_def)
  from update_consistent [OF ic u b, of sr] obtain d3 where
    d3: "update_incr_statistics b (drift_confidence d) (count_value b d) = Inr d3"
    and ic3: "incr_consistent d3"
    and upd: "update sr b d =
         (if incr_exceeds (drift_confidence d) d3
          then Inr (finish_update b (set_status True False (reset sr d3)), True, False)
          else if incr_exceeds (warning_confidence d) d3
          then Inr (finish_update b (set_status False True d3), False, True)
          else Inr (finish_update b (set_status False False d3), False, False))"
    by blast
  note f = update_incr_statistics_fields [OF d3]
  have t3: "EWMA_estimator (total d3) = b"
    using f(1) inv by (simp add: constant_input_inv_def fold_value_constant)
  have s: "EWMA_estimator (sample1_incr_monitor d3) = b
      \<and> (EWMA_estimator (sample2_incr_monitor d3) < 0 \<or> EWMA_estimator (sample2_incr_monitor d3) = b)
      \<and> incr_cutpoint d3 \<noteq> PosInf"
  proof (cases "incr_cutpoint d")
    case PosInf
    then show ?thesis using d3 inv
      by (auto simp: update_incr_statistics_def bind_err_def constant_input_inv_def fold_value_constant
          split: sum.splits)
  next
    case (Finite y)
    then have "EWMA_estimator (sample1_incr_monitor d) = b" using inv
      by (simp add: constant_input_inv_def)
    then show ?thesis using d3 inv Finite
      by (auto simp: update_incr_statistics_def bind_err_def constant_input_inv_def fold_value_constant
          split: sum.splits if_splits)
  qed
  have le: "EWMA_estimator (sample2_incr_monitor d3) \<le> EWMA_estimator (sample1_incr_monitor d3)"
    using s b by auto
  have vc: "valid_confidence (drift_confidence d)" "valid_confidence (warning_confidence d)"
    using ic by (simp_all add: incr_consistent_def)
  have r: "update sr b d = Inr (finish_update b (set_status False False d3), False, False)"
    using upd not_exceeds [OF ic3 vc(1) le] not_exceeds [OF ic3 vc(2) le] by simp
  have u3: "decr_unarmed d3" using u f by (simp add: decr_unarmed_def)
  have "constant_input_inv b (finish_update b (set_status False False d3))"
    using ic3 u3 t3 s incr_consistent_status [OF ic3]
    by (simp add: constant_input_inv_def decr_unarmed_def)
  then show ?thesis using r t3 by simp
qed

lemma feed_constant:
  "constant_input_inv b d \<Longrightarrow> 0 \<le> b \<Longrightarrow>
   \<exists>d'. feed sr (replicate k b) d = Inr (d', replicate k (False, False))
        \<and> constant_input_inv b d' \<and> (0 < k \<longrightarrow> EWMA_estimator (total d') = b)"
proof (induction k arbitrary: d)
  case 0
  then show ?case by simp
next
  case (Suc k)
  from update_constant [OF Suc.prems, of sr] obtain d1 where
    d1: "update sr b d = Inr (d1, False, False)" and i1: "constant_input_inv b d1"
    and e1: "EWMA_estimator (total d1) = b" by blast
  from Suc.IH [OF i1 Suc.prems(2)] obtain d' where
    d': "feed sr (replicate k b) d1 = Inr (d', replicate k (False, False))"
    and i': "constant_input_inv b d'" and e': "0 < k \<longrightarrow> EWMA_estimator (total d') = b" by blast
  have "EWMA_estimator (total d') = b"
  proof (cases k)
    case 0
    then show ?thesis using d' e1 by simp
  next
    case (Suc n)
    then show ?thesis using e' by simp
  qed
  then show ?case using d1 d' i' by simp
qed

lemma fresh_constant_input_inv:
  assumes "incr_consistent d" and "decr_unarmed d" and "incr_cutpoint d = PosInf"
    and "total d = SampleInfo_init" and "sample2_incr_monitor d = SampleInfo_init"
  shows "constant_input_inv b d"
  using assms by (simp add: constant_input_inv_def)

lemmas detector_defs = update_def update_incr_statistics_def update_decr_statistics_def
  incr_branch_def decr_branch_def monitor_mean_incr_def monitor_mean_decr_def
  detect_mean_increment_def sqrt_log_bound_def py_div_def py_log_def py_sqrt_def fold_value_def
  set_status_def reset_def HDDM_W_init_def SampleInfo_init_def clear_status_def blank_status_def


lemma ln2_lt_1: "ln (2::real) < 1"
proof -
  have le: "ln (2::real) \<le> 2 - 1" by (rule ln_le_minus_one) simp
  have "ln (2::real) \<noteq> 2 - 1"
  proof
    assume "ln (2::real) = 2 - 1"
    then have "(2::real) = 1" by (intro ln_eq_minus_one) simp_all
    then show False by simp
  qed
  then show ?thesis using le by simp
qed

lemma sqrt_ln2_bound: "\<not> 1 / 2 + sqrt (ln 2 / 4) < sqrt (ln 2 / 2)"
proof -
  have "ln (2::real) / 4 \<le> (1 / 2)\<^sup>2" using ln2_lt_1 by (simp add: power2_eq_square)
  then have b: "sqrt (ln 2 / 4) \<le> 1 / 2" by (intro real_le_lsqrt) simp_all
  have "sqrt (ln 2 / 2) = sqrt (ln 2 / 4 + ln 2 / 4)" by simp
  also have "\<dots> \<le> sqrt (ln 2 / 4) + sqrt (ln 2 / 4)"
    by (rule sqrt_add_le_add_sqrt) simp_all
  finally show ?thesis using b by linarith
qed

text \<open>
  Counterexample to C6 as stated: fed 0 and then 1, the detector signals a drift and
  resets; fed one more 1, it is not in the state of a fresh detector fed that 1 (the
  triggering value was folded into the second sample of the decrease side after the
  reset, in the same call).
\<close>

theorem drift_reset_differs_from_fresh:
  "(case feed clear_status [0, 1] (example_detector False) of
      Inl e \<Rightarrow> False
    | Inr r \<Rightarrow> snd r = [(False, False), (True, False)]
         \<and> (case feed clear_status [1] (fst r) of
               Inl e \<Rightarrow> False
             | Inr after_drift \<Rightarrow>
                 (case feed clear_status [1] (example_detector False) of
                    Inl e \<Rightarrow> False
                  | Inr fresh \<Rightarrow>
                      sample2_decr_monitor (fst after_drift)
                        = \<lparr>EWMA_estimator = 1, independent_bounded_condition_sum = 1/2\<rparr>
                      \<and> sample2_decr_monitor (fst fresh)
                        = \<lparr>EWMA_estimator = 1, independent_bounded_condition_sum = 1\<rparr>
                      \<and> fst after_drift \<noteq> fst fresh)))"
  by (simp add: detector_defs example_detector_def Let_def ln2_lt_1 sqrt_ln2_bound)

lemma update_params:
  assumes u: "decr_unarmed d" and r: "update sr v d = Inr r"
  shows "drift_confidence (fst r) = drift_confidence d \<and> warning_confidence (fst r) = warning_confidence d
     \<and> lambda_option (fst r) = lambda_option d \<and> two_sided_test (fst r) = two_sided_test d"
proof -
  from u r obtain d3 d4 where d3: "update_incr_statistics v (drift_confidence d) (count_value v d) = Inr d3"
    and d4: "incr_branch sr d3 = Inr d4" and fr: "fst r = finish_update v d4"
    by (auto simp: update_decr_unarmed bind_err_def split: sum.splits)
  note f = update_incr_statistics_fields [OF d3]
  show ?thesis using incr_branch_cases [OF d4] f fr by auto
qed

lemma reachable_params:
  "decr_unarmed d \<Longrightarrow> run_calls sr cs d = Inr d' \<Longrightarrow>
   drift_confidence d' = drift_confidence d \<and> warning_confidence d' = warning_confidence d
     \<and> lambda_option d' = lambda_option d \<and> two_sided_test d' = two_sided_test d"
proof (induction cs arbitrary: d)
  case Nil
  then show ?case by simp
next
  case (Cons c cs)
  show ?case
  proof (cases c)
    case (CallUpdate v)
    then obtain r where r: "update sr v d = Inr r" and rest: "run_calls sr cs (fst r) = Inr d'"
      using Cons.prems(2) by (auto simp: bind_err_def split: sum.splits)
    from Cons.IH [OF decr_unarmed_update [OF Cons.prems(1) r] rest] update_params [OF Cons.prems(1) r]
    show ?thesis by simp
  next
    case CallReset
    then show ?thesis using Cons.prems(2) Cons.IH [of "reset sr d"] by simp
  qed
qed

lemma drift_state:
  assumes u: "decr_unarmed d" and r: "update sr v d = Inr (d1, True, w)"
  shows "incr_view d1 = incr_view (HDDM_W_init sr b0 (drift_confidence d) (warning_confidence d)
                                     (lambda_option d) (two_sided_test d))
     \<and> decr_unarmed d1 \<and> incr_cutpoint d1 = PosInf \<and> total d1 = SampleInfo_init
     \<and> sample1_incr_monitor d1 = SampleInfo_init \<and> sample2_incr_monitor d1 = SampleInfo_init"
proof -
  from u r obtain d3 d4 where d3: "update_incr_statistics v (drift_confidence d) (count_value v d) = Inr d3"
    and d4: "incr_branch sr d3 = Inr d4" and fr: "d1 = finish_update v d4"
    and c: "in_concept_change (base d4)"
    by (auto simp: update_decr_unarmed bind_err_def split: sum.splits)
  note f = update_incr_statistics_fields [OF d3]
  have d4': "d4 = set_status True False (reset sr d3)"
    using incr_branch_cases [OF d4] c by auto
  have "incr_view d1 = incr_view (HDDM_W_init sr b0 (drift_confidence d) (warning_confidence d)
                                     (lambda_option d) (two_sided_test d))"
    unfolding fr d4' using f(5-8)
    by (cases d3) (simp add: incr_view_def finish_update_def set_status_def reset_def HDDM_W_init_def)
  then show ?thesis unfolding fr d4' by (simp add: decr_unarmed_def)
qed

text \<open>
  C6 (amended). For a detector \<open>d\<close> reached from the constructor, with valid
  confidence levels and a weight in \<open>[0, 1]\<close>:
  after an explicit \<^verbatim>\<open>reset()\<close>, feeding any one or more values gives exactly the result
  (exception, or final state and returned flags) of feeding them to a fresh detector
  with the same parameters, and the reset state itself differs from the fresh one at
  most in the base class's attributes;
  a constant bit fed \<open>k\<close> times to a reset or fresh detector never raises and never
  signals a drift or a warning, and the total average is that bit;
  after a reset triggered by a drift signal, a constant bit never signals a drift or a
  warning either, and any stream gives the same flags as on a fresh detector and the
  same state up to the second sample of the decrease side (and the base attributes).
\<close>

theorem reset_law:
  assumes reach: "run_calls sr cs (HDDM_W_init sr b0 dc wc lam two) = Inr d"
    and params: "valid_confidence dc" "valid_confidence wc" "0 \<le> lam" "lam \<le> 1"
    and b: "b = 0 \<or> b = 1"
  shows "feed sr (v # vs) (reset sr d) = feed sr (v # vs) (HDDM_W_init sr b0 dc wc lam two)
     \<and> (reset sr d)\<lparr>base := base (HDDM_W_init sr b0 dc wc lam two)\<rparr> = HDDM_W_init sr b0 dc wc lam two
     \<and> (\<exists>d'. feed sr (replicate k b) (reset sr d) = Inr (d', replicate k (False, False)))
     \<and> (\<exists>d'. feed sr (replicate k b) (HDDM_W_init sr b0 dc wc lam two)
                = Inr (d', replicate k (False, False))
             \<and> (0 < k \<longrightarrow> EWMA_estimator (total d') = b))
     \<and> (\<forall>d1 w. update sr v d = Inr (d1, True, w) \<longrightarrow>
           (\<exists>d'. feed sr (replicate k b) d1 = Inr (d', replicate k (False, False)))
           \<and> map_sum id (\<lambda>r. (incr_view (fst r), snd r)) (feed sr vs d1)
               = map_sum id (\<lambda>r. (incr_view (fst r), snd r))
                   (feed sr vs (HDDM_W_init sr b0 dc wc lam two)))"
proof -
  let ?init = "HDDM_W_init sr b0 dc wc lam two"
  have u: "decr_unarmed d" using reachable_decr_unarmed [OF decr_unarmed_init reach] .
  have p: "drift_confidence d = dc" "warning_confidence d = wc" "lambda_option d = lam"
    "two_sided_test d = two"
    using reachable_params [OF decr_unarmed_init reach] by (simp_all add: HDDM_W_init_def)
  have b0: "0 \<le> b" using b by auto
  have ici: "incr_consistent ?init" using incr_consistent_init [OF params] .
  have inv_init: "constant_input_inv b ?init"
    by (rule fresh_constant_input_inv [OF ici]) (simp_all add: HDDM_W_init_def decr_unarmed_def)
  have icr: "incr_consistent (reset sr d)"
    using params p by (simp add: incr_consistent_def)
  have inv_reset: "constant_input_inv b (reset sr d)"
    by (rule fresh_constant_input_inv [OF icr]) simp_all
  have 1: "feed sr (v # vs) (reset sr d) = feed sr (v # vs) ?init"
    using feed_reset_eq_init [of sr v vs d b0] p by simp
  have 2: "(reset sr d)\<lparr>base := base ?init\<rparr> = ?init"
    using reset_is_init [of sr d b0] p by (simp add: HDDM_W_init_def)
  have 3: "\<exists>d'. feed sr (replicate k b) (reset sr d) = Inr (d', replicate k (False, False))"
    using feed_constant [OF inv_reset b0, of sr k] by blast
  have 4: "\<exists>d'. feed sr (replicate k b) ?init = Inr (d', replicate k (False, False))
             \<and> (0 < k \<longrightarrow> EWMA_estimator (total d') = b)"
    using feed_constant [OF inv_init b0, of sr k] by blast
  have 5: "\<forall>d1 w. update sr v d = Inr (d1, True, w) \<longrightarrow>
           (\<exists>d'. feed sr (replicate k b) d1 = Inr (d', replicate k (False, False)))
           \<and> map_sum id (\<lambda>r. (incr_view (fst r), snd r)) (feed sr vs d1)
               = map_sum id (\<lambda>r. (incr_view (fst r), snd r)) (feed sr vs ?init)"
  proof (intro allI impI)
    fix d1 w assume r: "update sr v d = Inr (d1, True, w)"
    note ds = drift_state [OF u r, of b0]
    have v1: "incr_view d1 = incr_view ?init" using ds p by simp
    have ic1: "incr_consistent d1" using ds params p update_params [OF u r]
      by (simp add: incr_consistent_def)
    have inv1: "constant_input_inv b d1"
      by (rule fresh_constant_input_inv [OF ic1]) (use ds in simp_all)
    have a: "\<exists>d'. feed sr (replicate k b) d1 = Inr (d', replicate k (False, False))"
      using feed_constant [OF inv1 b0, of sr k] by blast
    have "map_sum id (\<lambda>r. (incr_view (fst r), snd r)) (feed sr vs d1)
               = map_sum id (\<lambda>r. (incr_view (fst r), snd r)) (feed sr vs ?init)"
      using feed_view [OF decr_unarmed_init v1 [symmetric], of sr vs] by simp
    then show "(\<exists>d'. feed sr (replicate k b) d1 = Inr (d', replicate k (False, False)))
           \<and> map_sum id (\<lambda>r. (incr_view (fst r), snd r)) (feed sr vs d1)
               = map_sum id (\<lambda>r. (incr_view (fst r), snd r)) (feed sr vs ?init)"
      using a by simp
  qed
  show ?thesis using 1 2 3 4 5 by simp
qed

lemma example_after_zero:
  "\<exists>d. run_calls clear_status [CallUpdate 0] (example_detector two) = Inr d
     \<and> update_incr_statistics 1 (drift_confidence d) (count_value 1 d)
         = Inr (d\<lparr>width := 2, delay := 1,
                  total := \<lparr>EWMA_estimator = 1/2, independent_bounded_condition_sum = 1/2\<rparr>,
                  sample2_incr_monitor := \<lparr>EWMA_estimator = 1, independent_bounded_condition_sum = 1\<rparr>\<rparr>)
     \<and> sample1_incr_monitor d = \<lparr>EWMA_estimator = 0, independent_bounded_condition_sum = 1\<rparr>
     \<and> drift_confidence d = 1/2"
  by (simp add: detector_defs example_detector_def count_value_def Let_def ln2_lt_1 sqrt_ln2_bound)

lemma example_params:
  "valid_confidence (1/2)" "valid_confidence (3/4)" "(0::real) \<le> 1/2" "(1::real)/2 \<le> 1"
  by (simp_all add: valid_confidence_def)



lemma ln2_ge_half: "1 / 2 \<le> ln (2::real)"
proof -
  have "ln (1 / 2 :: real) \<le> 1 / 2 - 1" by (rule ln_le_minus_one) simp
  moreover have "ln (1 / 2 :: real) = - ln 2" by (simp add: ln_div)
  ultimately show ?thesis by simp
qed

lemma ln43_le_third: "ln (4 / 3 :: real) \<le> 1 / 3"
proof -
  have "ln (4 / 3 :: real) \<le> 4 / 3 - 1" by (rule ln_le_minus_one) simp
  then show ?thesis by simp
qed

lemma armed_bounds:
  "\<not> 1 + sqrt (ln 2 / 2) < 0"
  "\<not> sqrt (ln 2) < 2 / 3"
  "sqrt (ln (4 / 3)) < 2 / 3"
  "\<not> 5 < 1 - sqrt (ln 2 / 2)"
  "sqrt (ln 2 / 8) < 1 / 2"
proof -
  have s: "0 \<le> sqrt (ln 2 / 2)" by simp
  show "\<not> 1 + sqrt (ln 2 / 2) < 0" using s by linarith
  show "\<not> 5 < 1 - sqrt (ln 2 / 2)" using s by linarith
  have "(2 / 3 :: real)\<^sup>2 \<le> ln 2" using ln2_ge_half by (simp add: power2_eq_square)
  then have "2 / 3 \<le> sqrt (ln 2)" by (intro real_le_rsqrt)
  then show "\<not> sqrt (ln 2) < 2 / 3" by simp
  have "ln (4 / 3 :: real) < (2 / 3)\<^sup>2" using ln43_le_third by (simp add: power2_eq_square)
  then show "sqrt (ln (4 / 3)) < 2 / 3" by (intro real_less_lsqrt) simp_all
  have "ln (2 :: real) / 8 < (1 / 2)\<^sup>2" using ln2_lt_1 by (simp add: power2_eq_square)
  then show "sqrt (ln 2 / 8) < 1 / 2" by (intro real_less_lsqrt) simp_all
qed

lemma armed_bounds_normal:
  "sqrt (ln 2 / 8) * 2 < 1"
  "\<not> 4 < - sqrt (ln 2 / 2)"
  "sqrt (ln (4 / 3)) * 3 < 2"
  "\<not> sqrt (ln 2) * 3 < 2"
  using armed_bounds by simp_all

lemma armed_incr:
  "update_incr_statistics 1 (1/2) (count_value 1 (armed_detector two))
     = Inr ((armed_detector two)\<lparr>width := 11, delay := 4,
              total := \<lparr>EWMA_estimator = 1, independent_bounded_condition_sum = 1\<rparr>,
              sample2_incr_monitor := \<lparr>EWMA_estimator = 2/3, independent_bounded_condition_sum = 1/4\<rparr>\<rparr>)"
  by (simp add: detector_defs armed_detector_def count_value_def Let_def armed_bounds)



text \<open>
  Counterexample to C7 as stated, with a base class whose \<^verbatim>\<open>reset\<close> clears the two
  flags: on the armed two-sided detector and the value 1, the increase monitor does not
  fire at the drift confidence and fires at the warning confidence, so the increase-side
  tests decide \<open>(False, True)\<close>; the decrease monitor fires, the detector is reset, and
  \<^verbatim>\<open>update\<close> returns \<open>(False, False)\<close>. The same detector, one-sided, returns
  \<open>(False, True)\<close>.
\<close>

theorem decrease_reset_clears_warning:
  "(case update_incr_statistics 1 (1/2) (count_value 1 (armed_detector True)) of
      Inl e \<Rightarrow> False
    | Inr d3 \<Rightarrow>
        monitor_mean_incr (1/2) d3 = Inr False \<and> monitor_mean_incr (3/4) d3 = Inr True
        \<and> (case incr_branch clear_status d3 of
              Inl e \<Rightarrow> False
            | Inr d4 \<Rightarrow> \<not> in_concept_change (base d4) \<and> in_warning_zone (base d4)))
   \<and> (case update clear_status 1 (armed_detector True) of
         Inl e \<Rightarrow> False | Inr r \<Rightarrow> snd r = (False, False))
   \<and> (case update clear_status 1 (armed_detector False) of
         Inl e \<Rightarrow> False | Inr r \<Rightarrow> snd r = (False, True))"
  by (simp add: detector_defs armed_detector_def count_value_def Let_def armed_bounds
      armed_bounds_normal)

text \<open>
  Witness for C7: on the armed two-sided detector the decrease monitor fires after
  \<^verbatim>\<open>_update_decr_statistics\<close>, and \<^verbatim>\<open>update\<close> returns the reset state with the flags
  of the base class's \<^verbatim>\<open>reset\<close>.
\<close>

theorem decrease_test_outcome_witness:
  "update clear_status 1 (armed_detector True) =
     Inr (\<lparr>base = \<lparr>in_concept_change = False, in_warning_zone = False, estimation = Some (-1)\<rparr>,
           total = \<lparr>EWMA_estimator = -1, independent_bounded_condition_sum = 0\<rparr>,
           sample1_decr_monitor = \<lparr>EWMA_estimator = -1, independent_bounded_condition_sum = 0\<rparr>,
           sample1_incr_monitor = \<lparr>EWMA_estimator = -1, independent_bounded_condition_sum = 0\<rparr>,
           sample2_decr_monitor = \<lparr>EWMA_estimator = -1, independent_bounded_condition_sum = 0\<rparr>,
           sample2_incr_monitor = \<lparr>EWMA_estimator = -1, independent_bounded_condition_sum = 0\<rparr>,
           incr_cutpoint = PosInf, decr_cutpoint = PosInf, width = 0, delay = 0,
           drift_confidence = 1/2, warning_confidence = 3/4, lambda_option = 1/2,
           two_sided_test = True\<rparr>, False, False)
   \<and> (\<exists>d5. bind_err (update_incr_statistics 1 (1/2) (count_value 1 (armed_detector True))) (\<lambda>d3.
             bind_err (incr_branch clear_status d3) (\<lambda>d4.
               update_decr_statistics 1 (1/2) d4)) = Inr d5
          \<and> monitor_mean_decr (1/2) d5 = Inr True)"
proof -
  have a: "drift_confidence (armed_detector True) = 1/2" by (simp add: armed_detector_def)
  have 1: "update clear_status 1 (armed_detector True) =
     Inr (\<lparr>base = \<lparr>in_concept_change = False, in_warning_zone = False, estimation = Some (-1)\<rparr>,
           total = \<lparr>EWMA_estimator = -1, independent_bounded_condition_sum = 0\<rparr>,
           sample1_decr_monitor = \<lparr>EWMA_estimator = -1, independent_bounded_condition_sum = 0\<rparr>,
           sample1_incr_monitor = \<lparr>EWMA_estimator = -1, independent_bounded_condition_sum = 0\<rparr>,
           sample2_decr_monitor = \<lparr>EWMA_estimator = -1, independent_bounded_condition_sum = 0\<rparr>,
           sample2_incr_monitor = \<lparr>EWMA_estimator = -1, independent_bounded_condition_sum = 0\<rparr>,
           incr_cutpoint = PosInf, decr_cutpoint = PosInf, width = 0, delay = 0,
           drift_confidence = 1/2, warning_confidence = 3/4, lambda_option = 1/2,
           two_sided_test = True\<rparr>, False, False)"
    unfolding decrease_test_outcome [of clear_status 1 "armed_detector True"] a armed_incr bind_err_Inr
    by (simp add: incr_branch_def monitor_mean_incr_def monitor_mean_decr_def
        detect_mean_increment_def sqrt_log_bound_def py_div_def py_log_def py_sqrt_def
        update_decr_statistics_def fold_value_def set_status_def clear_status_def
        blank_status_def armed_detector_def Let_def armed_bounds armed_bounds_normal)
  have 2: "\<exists>d5. bind_err (update_incr_statistics 1 (1/2) (count_value 1 (armed_detector True))) (\<lambda>d3.
             bind_err (incr_branch clear_status d3) (\<lambda>d4.
               update_decr_statistics 1 (1/2) d4)) = Inr d5
          \<and> monitor_mean_decr (1/2) d5 = Inr True"
    unfolding armed_incr bind_err_Inr
    by (simp add: incr_branch_def monitor_mean_incr_def monitor_mean_decr_def
        detect_mean_increment_def sqrt_log_bound_def py_div_def py_log_def py_sqrt_def
        update_decr_statistics_def fold_value_def set_status_def clear_status_def
        blank_status_def armed_detector_def Let_def armed_bounds armed_bounds_normal)
  show ?thesis using 1 2 by blast
qed

text \<open>
  Witness for C6: a detector that has seen a 0 is reset and fed two 1s: no signal, and
  the result of a fresh detector.
\<close>

theorem reset_law_witness:
  "\<exists>d d'. run_calls clear_status [CallUpdate 0] (example_detector False) = Inr d
      \<and> feed clear_status [1, 1] (reset clear_status d) = Inr (d', [(False, False), (False, False)])
      \<and> feed clear_status [1, 1] (reset clear_status d)
          = feed clear_status [1, 1] (example_detector False)"
proof -
  from example_after_zero [of False] obtain d where
    d: "run_calls clear_status [CallUpdate 0] (example_detector False) = Inr d" by blast
  have reach: "run_calls clear_status [CallUpdate 0]
      (HDDM_W_init clear_status blank_status (1/2) (3/4) (1/2) False) = Inr d"
    using d by (simp add: example_detector_def)
  have bit: "(1::real) = 0 \<or> (1::real) = 1" by simp
  note r = reset_law [OF reach example_params bit, where v = 1 and vs = "[1]"
      and k = "Suc (Suc 0)", unfolded replicate.simps]
  have "feed clear_status [1, 1] (reset clear_status d)
          = feed clear_status [1, 1] (example_detector False)"
    unfolding example_detector_def using r by blast
  moreover have "\<exists>d'. feed clear_status [1, 1] (reset clear_status d)
      = Inr (d', [(False, False), (False, False)])"
    using r by blast
  ultimately show ?thesis using d by blast
qed

section \<open>Properties of the chain models\<close>

lemma dicts_dict_set: "a \<noteq> xc \<Longrightarrow> dicts (dict_set xc k v hp) a = dicts hp a"
  by (simp add: dict_set_def)

lemma dicts_dict_put: "a \<noteq> xc \<Longrightarrow> dicts (dict_put xc d hp) a = dicts hp a"
  by (simp add: dict_put_def)

lemma dicts_fold_dict_set:
  "a \<noteq> xc \<Longrightarrow> dicts (fold (\<lambda>(l, p). dict_set xc (f l) (g p)) ys hp) a = dicts hp a"
  by (induction ys arbitrary: hp) (auto simp: dicts_dict_set)

lemma ClassifierChain_learn_loop_frame:
  "a \<noteq> xc \<Longrightarrow> dicts (snd (ClassifierChain_learn_loop ops xc y os ch hp)) a = dicts hp a"
proof (induction os arbitrary: ch hp)
  case Nil
  then show ?case by simp
next
  case (Cons ou os)
  show ?case
    using Cons.prems
    by (auto simp: Let_def Cons.IH dicts_dict_set dicts_dict_put dicts_fold_dict_set
        split: option.splits prod.splits)
qed

lemma ClassifierChain_predict_loop_frame:
  "a \<noteq> xc \<Longrightarrow> dicts (snd (snd (ClassifierChain_predict_loop ops xc os yp ch hp))) a = dicts hp a"
proof (induction os arbitrary: yp ch hp)
  case Nil
  then show ?case by simp
next
  case (Cons ou os)
  show ?case
    using Cons.prems
    by (auto simp: Let_def Cons.IH dicts_dict_set dicts_dict_put dicts_fold_dict_set
        split: option.splits prod.splits)
qed

lemma RegressorChain_learn_loop_frame:
  "a \<noteq> xc \<Longrightarrow> dicts (snd (RegressorChain_learn_loop ops xc y os ch hp)) a = dicts hp a"
proof (induction os arbitrary: ch hp)
  case Nil
  then show ?case by simp
next
  case (Cons ou os)
  show ?case
    using Cons.prems
    by (auto simp: Let_def Cons.IH dicts_dict_set dicts_dict_put
        split: option.splits prod.splits)
qed

lemma RegressorChain_predict_loop_frame:
  "a \<noteq> xc \<Longrightarrow> dicts (snd (snd (RegressorChain_predict_loop ops xc items yp ch hp))) a = dicts hp a"
proof (induction items arbitrary: yp ch hp)
  case Nil
  then show ?case by simp
next
  case (Cons it items)
  show ?case
    using Cons.prems
    by (cases it) (auto simp: Let_def Cons.IH dicts_dict_set dicts_dict_put
        split: option.splits prod.splits)
qed

lemma copy_copy_simps [simp]:
  "fst (copy_copy x hp) = next_dict hp"
  "dicts (snd (copy_copy x hp)) = (dicts hp)(next_dict hp := dicts hp x)"
  "next_dict (snd (copy_copy x hp)) = next_dict hp + 1"
  by (simp_all add: copy_copy_def)

text \<open>
  C10. \<^verbatim>\<open>learn_one\<close> and the prediction operation of both chain models leave every
  dictionary that existed before the call as it was, the caller's \<open>x\<close> among them:
  the predictions are inserted into the copy that \<^verbatim>\<open>copy.copy(x)\<close> allocates, also when
  the operation raises.
\<close>

theorem chain_leaves_features_unchanged:
  assumes "a < next_dict hp"
  shows "dicts (snd (ClassifierChain_learn_one cops x y ch hp)) a = dicts hp a
     \<and> dicts (snd (snd (ClassifierChain_predict_proba_one cops x ch hp))) a = dicts hp a
     \<and> dicts (snd (RegressorChain_learn_one rops x yr ch hp)) a = dicts hp a
     \<and> dicts (snd (snd (RegressorChain_predict_one rops x ch hp))) a = dicts hp a"
proof -
  have ne: "a \<noteq> next_dict hp" using assms by simp
  have 1: "dicts (snd (ClassifierChain_learn_one cops x y ch hp)) a = dicts hp a"
    using ne by (simp add: ClassifierChain_learn_one_def Let_def split_beta
        ClassifierChain_learn_loop_frame)
  have 2: "dicts (snd (snd (ClassifierChain_predict_proba_one cops x ch hp))) a = dicts hp a"
    using ne by (simp add: ClassifierChain_predict_proba_one_def Let_def split_beta
        ClassifierChain_predict_loop_frame split: option.splits)
  have 3: "dicts (snd (RegressorChain_learn_one rops x yr ch hp)) a = dicts hp a"
    using ne by (simp add: RegressorChain_learn_one_def Let_def split_beta
        RegressorChain_learn_loop_frame)
  have 4: "dicts (snd (snd (RegressorChain_predict_one rops x ch hp))) a = dicts hp a"
    using ne by (simp add: RegressorChain_predict_one_def Let_def split_beta
        RegressorChain_predict_loop_frame)
  show ?thesis using 1 2 3 4 by simp
qed

section \<open>Properties of the adaptive tree classifier\<close>

lemma summed_distribution_single: "summed_distribution [p] = p"
  by (rule ext) (auto simp: summed_distribution_def)

lemma summed_distribution_add:
  "summed_distribution (add_dict_values p d # ds) = summed_distribution (p # d # ds)"
  by (rule ext) (auto simp: summed_distribution_def add_dict_values_def split: option.splits)

lemma fold_add_dict_values:
  "fold (\<lambda>d p. add_dict_values p d) ds p = summed_distribution (p # ds)"
proof (induction ds arbitrary: p)
  case Nil
  show ?case by (simp add: summed_distribution_single)
next
  case (Cons d ds)
  show ?case by (simp add: Cons.IH summed_distribution_add)
qed

lemma summed_distribution_empty: "summed_distribution (Map.empty # ds) = summed_distribution ds"
  by (rule ext) (simp add: summed_distribution_def)

lemma included_simps [simp]:
  "included [] = []"
  "included (fn # fns) = (if fn_parent_branch fn \<noteq> -999 then fn # included fns else included fns)"
  by (simp_all add: included_def)

lemma combine_found_Cons:
  "combine_found np x (fn # fns) proba =
     (if fn_parent_branch fn \<noteq> -999
      then (case predicting_node fn of
              None \<Rightarrow> Inl AttributeError
            | Some n \<Rightarrow> combine_found np x fns (add_dict_values proba (np n x)))
      else combine_found np x fns proba)"
  by (simp add: predicting_node_def)

lemma combine_found_fold:
  "combine_found np x fns proba =
     (if \<forall>fn \<in> set (included fns). predicting_node fn \<noteq> None
      then Inr (fold (\<lambda>d p. add_dict_values p d)
                  (map (\<lambda>fn. np (the (predicting_node fn)) x) (included fns)) proba)
      else Inl AttributeError)"
proof (induction fns arbitrary: proba)
  case Nil
  show ?case by simp
next
  case (Cons fn fns)
  show ?case
  proof (cases "fn_parent_branch fn \<noteq> -999")
    case False
    then show ?thesis unfolding combine_found_Cons using Cons.IH [of proba] by simp
  next
    case True
    show ?thesis
    proof (cases "predicting_node fn")
      case None
      then show ?thesis unfolding combine_found_Cons using True by simp
    next
      case (Some n)
      then show ?thesis unfolding combine_found_Cons
        using True Cons.IH [of "add_dict_values proba (np n x)"] by simp
    qed
  qed
qed

lemma bind_err_if: "bind_err (if c then Inr a else Inl e) f = (if c then f a else Inl e)"
  by simp

lemma combine_found_summed:
  "bind_err (combine_found np x fns z) f =
      (if \<forall>fn \<in> set (included fns). predicting_node fn \<noteq> None
       then f (summed_distribution (z # map (\<lambda>fn. np (the (predicting_node fn)) x) (included fns)))
       else Inl AttributeError)"
  unfolding combine_found_fold [of np x fns z] fold_add_dict_values by (rule bind_err_if)

text \<open>
  C5. \<^verbatim>\<open>predict_proba_one\<close> of the adaptive tree (both versions) returns the
  normalisation of the sum of the class distributions predicted at the found results
  whose \<^verbatim>\<open>parent_branch\<close> is not -999, where a result without a leaf is predicted by its
  parent (river starts the sum with weight 0 for the classes seen; a result with neither
  leaf nor parent raises \<^verbatim>\<open>AttributeError\<close>).
\<close>

theorem predict_proba_one_combines:
  "HATC_creme_predict_proba_one softmax is_inactive_leaf filter_instance_to_leaf
       filter_instance_to_leaves node_predict h x =
     (case hatc_tree_root h of
        None \<Rightarrow> softmax Map.empty
      | Some r \<Rightarrow>
          let found_nodes = (if is_inactive_leaf r then [filter_instance_to_leaf r x]
                             else filter_instance_to_leaves r x)
          in if \<forall>fn \<in> set (included found_nodes). predicting_node fn \<noteq> None
             then softmax (summed_distribution
                    (map (\<lambda>fn. node_predict (the (predicting_node fn)) x) (included found_nodes)))
             else Inl AttributeError)
   \<and> HATC_river_predict_proba_one normalize_values_in_dict filter_instance_to_leaves node_predict h x =
     (let zeros = (\<lambda>c. if c \<in> classes h then Some 0 else None) in
      case hatc_tree_root h of
        None \<Rightarrow> Inr zeros
      | Some r \<Rightarrow>
          if \<forall>fn \<in> set (included (filter_instance_to_leaves r x)). predicting_node fn \<noteq> None
          then normalize_values_in_dict (summed_distribution
                 (zeros # map (\<lambda>fn. node_predict (the (predicting_node fn)) x)
                            (included (filter_instance_to_leaves r x))))
          else Inl AttributeError)"
proof (cases "hatc_tree_root h")
  case None
  then show ?thesis
    by (simp add: HATC_creme_predict_proba_one_def HATC_river_predict_proba_one_def)
next
  case (Some r)
  show ?thesis
    unfolding HATC_creme_predict_proba_one_def HATC_river_predict_proba_one_def Let_def
      combine_found_summed summed_distribution_empty
    by (simp only: Some option.case simp_thms)
qed

text \<open>
  C9. On a tree without a root the regressor predicts 0, river's classifier returns
  weight 0 for every class seen (the empty dictionary when none was), and creme's
  classifier returns what \<open>softmax\<close> returns for the empty dictionary: the empty
  dictionary, if \<open>softmax\<close> maps it to itself. No traversal or node is involved.
\<close>

theorem empty_tree_prediction:
  assumes "tree_root t = None" and "hatc_tree_root h = None"
    and "softmax Map.empty = Inr Map.empty"
  shows "HTR_predict_one filter_to_leaf is_leaf node_predict_one count_and_sum t x = Inr 0
     \<and> HATC_river_predict_proba_one normalize_values_in_dict filter_instance_to_leaves node_predict h xc
         = Inr (\<lambda>c. if c \<in> classes h then Some 0 else None)
     \<and> HATC_creme_predict_proba_one softmax is_inactive_leaf filter_instance_to_leaf
           filter_instance_to_leaves node_predict h xc = Inr Map.empty"
  using assms
  by (simp add: HTR_predict_one_def HATC_river_predict_proba_one_def
      HATC_creme_predict_proba_one_def)

text \<open>
  C8 (code defect). creme's \<^verbatim>\<open>HoeffdingAdaptiveTreeClassifier.learn_one\<close> hands back
  \<^verbatim>\<open>None\<close> on every input; river's hands back \<^verbatim>\<open>self\<close> whenever it does not raise.
\<close>

theorem creme_learn_one_returns_none:
  "snd (HATC_creme_learn_one fresh_leaf is_inactive_leaf inactive_learn_one ada_learn_one
          x y sample_weight h) = ReturnNone
   \<and> (case HATC_river_learn_one fresh_leaf' root_learn_one estimate_model_size x' y' sample_weight h' of
         Inl e \<Rightarrow> e = ZeroDivisionError
       | Inr r \<Rightarrow> snd r = ReturnSelf)"
  by (auto simp: HATC_creme_learn_one_def HATC_river_learn_one_def Let_def py_mod_def
      split: sum.splits)

text \<open>
  Witness for C5: of three found results with weights 1, 2 and 3 for class 0, the second
  is the root of an alternate tree and is left out, the third has no leaf and is
  predicted by its parent: class 0 gets weight 4.
\<close>

theorem predict_proba_one_combines_witness:
  "\<exists>p. HATC_creme_predict_proba_one Inr (\<lambda>n. False)
          (\<lambda>r x. \<lparr>fn_node = Some r, fn_parent = None, fn_parent_branch = -1\<rparr>)
          (\<lambda>r x. example_found) example_node_predict (example_hatc (Some 0) {0}) () = Inr p
      \<and> p 0 = Some 4 \<and> p 1 = None"
proof -
  have ok: "\<forall>fn \<in> set (included example_found). predicting_node fn \<noteq> None"
    by (simp add: example_found_def included_def predicting_node_def)
  have inc: "map (\<lambda>fn. example_node_predict (the (predicting_node fn)) ()) (included example_found)
      = [[0 \<mapsto> 1], [0 \<mapsto> 3]]"
    by (simp add: example_found_def included_def predicting_node_def example_node_predict_def)
  from predict_proba_one_combines [where softmax = Inr and is_inactive_leaf = "\<lambda>n. False"
      and filter_instance_to_leaf = "\<lambda>r x. \<lparr>fn_node = Some r, fn_parent = None, fn_parent_branch = -1\<rparr>"
      and filter_instance_to_leaves = "\<lambda>r x. example_found"
      and node_predict = example_node_predict and h = "example_hatc (Some 0) {0}" and x = "()"]
  have "HATC_creme_predict_proba_one Inr (\<lambda>n. False)
          (\<lambda>r x. \<lparr>fn_node = Some r, fn_parent = None, fn_parent_branch = -1\<rparr>)
          (\<lambda>r x. example_found) example_node_predict (example_hatc (Some 0) {0}) ()
        = Inr (summed_distribution [[0 \<mapsto> 1], [0 \<mapsto> 3]])"
    using ok inc by (simp add: example_hatc_def)
  then show ?thesis by (simp add: summed_distribution_def)
qed

text \<open>
  Witness for C9: trees without a root, with the identity as normaliser.
\<close>

theorem empty_tree_prediction_witness:
  "HTR_predict_one (\<lambda>t r x. Some r) (\<lambda>n. True) (\<lambda>t n x. Inr 1) (\<lambda>s. (1, 1))
       ((single_leaf_tree False)\<lparr>tree_root := None\<rparr>) () = Inr 0
   \<and> HATC_river_predict_proba_one Inr (\<lambda>r x. example_found) example_node_predict
       (example_hatc None {}) () = Inr Map.empty
   \<and> HATC_creme_predict_proba_one Inr (\<lambda>n. False)
       (\<lambda>r x. \<lparr>fn_node = Some r, fn_parent = None, fn_parent_branch = -1\<rparr>)
       (\<lambda>r x. example_found) example_node_predict (example_hatc None {}) () = Inr Map.empty"
proof -
  have a: "tree_root ((single_leaf_tree False)\<lparr>tree_root := None\<rparr>) = None" by simp
  have b: "hatc_tree_root (example_hatc None {}) = None" by (simp add: example_hatc_def)
  have c: "(Inr :: (nat \<rightharpoonup> real) \<Rightarrow> py_error + (nat \<rightharpoonup> real)) Map.empty = Inr Map.empty" by simp
  from empty_tree_prediction [where softmax = "Inr :: (nat \<rightharpoonup> real) \<Rightarrow> py_error + (nat \<rightharpoonup> real)"
      and t = "(single_leaf_tree False)\<lparr>tree_root := None\<rparr>" and h = "example_hatc None {}"
      and filter_to_leaf = "\<lambda>t r x. Some r" and is_leaf = "\<lambda>n. True"
      and node_predict_one = "\<lambda>t n x. Inr 1" and count_and_sum = "\<lambda>s. (1, 1)" and x = "()"
      and normalize_values_in_dict = Inr and filter_instance_to_leaves = "\<lambda>r x. example_found"
      and node_predict = example_node_predict and xc = "()" and is_inactive_leaf = "\<lambda>n. False"
      and filter_instance_to_leaf = "\<lambda>r x. \<lparr>fn_node = Some r, fn_parent = None, fn_parent_branch = -1\<rparr>", OF a b c]
  show ?thesis by (simp add: example_hatc_def)
qed

text \<open>
  Witness for C10: a classifier chain learns one output from the dictionary at address 0:
  that dictionary is unchanged and the copy at address 1 holds the prediction.
\<close>

theorem chain_leaves_features_unchanged_witness:
  "dicts (snd (ClassifierChain_learn_one example_classifier 0 [(1, True)] example_chain example_heap)) 0
     = dicts example_heap 0
   \<and> dicts (snd (ClassifierChain_learn_one example_classifier 0 [(1, True)] example_chain example_heap)) 1
     = [0 \<mapsto> Float 1, 1 \<mapsto> Float (1/2)]"
proof -
  have a: "0 < next_dict example_heap" by (simp add: example_heap_def)
  have "dicts (snd (ClassifierChain_learn_one example_classifier 0 [(1, True)] example_chain example_heap)) 0
     = dicts example_heap 0"
    using chain_leaves_features_unchanged [OF a] by blast
  moreover have "dicts (snd (ClassifierChain_learn_one example_classifier 0 [(1, True)] example_chain example_heap)) 1
     = [0 \<mapsto> Float 1, 1 \<mapsto> Float (1/2)]"
    by (simp add: ClassifierChain_learn_one_def infer_order_def init_models_def example_chain_def
        example_heap_def example_classifier_def copy_copy_def dict_put_def dict_set_def Let_def)
  ultimately show ?thesis by simp
qed

end
